theory Spec2Isabelle
  imports Main
begin

section \<open>Slimshell: the data model of \<^verbatim>\<open>src/index.ts\<close>\<close>

text \<open>
  The embedding follows \<^verbatim>\<open>src/index.ts\<close> declaration by declaration.

  \<^item> A value of an argument bag (\<^verbatim>\<open>string | number | boolean | Array<...>\<close>) is a
    \<open>jsval\<close>; a property that the bag does not own is \<open>None\<close>, and \<open>VUndefined\<close> is
    the value of an own property that was assigned \<^verbatim>\<open>undefined\<close> (line 149 does so).
    Numbers are integers here: the code only tests a number for being falsy (zero).
  \<^item> A \<^verbatim>\<open>Record<string, _>\<close> is a plain JavaScript object: a map of its own properties
    together with a prototype. A read of a name that the object does not own goes to
    the prototype, so \<^verbatim>\<open>constructor\<close>, \<^verbatim>\<open>toString\<close> and the other members of
    \<^verbatim>\<open>Object.prototype\<close> are never undefined, and an assignment to \<^verbatim>\<open>__proto__\<close> replaces
    the prototype instead of creating a property.
  \<^item> A handler (\<^verbatim>\<open>Command\<close>) is a total function from the bag to its response; a
    handler that throws or never settles is outside the model.
  \<^item> A command definition is an object shared by reference between the registry and
    the builder stages, so the definitions live in a store (\<open>heap\<close>, a list indexed by
    address) and both the registry and the stages hold addresses.
\<close>

datatype jsval = VStr string | VNum int | VBool bool | VArr "jsval list" | VUndefined

type_synonym IArguments = "string \<rightharpoonup> jsval"

record IArgumentDefinition =
  description :: string
  name :: string
  alternatives :: "string list option"

record ICommandResponse =
  success :: bool
  messages :: "string list option"

type_synonym Command = "IArguments \<Rightarrow> ICommandResponse"

record ICommandDefinition =
  verb :: string
  noun :: "string option"
  command :: Command
  requiredArguments :: "IArgumentDefinition list option"

text \<open>Lines 31-33 and 67-69: the placeholder handler and the built-in exit handler.\<close>

definition NoCommand :: Command where
  "NoCommand args = \<lparr>success = True, messages = None\<rparr>"

definition exit :: Command where
  "exit args = \<lparr>success = False, messages = Some [''byeee'']\<rparr>"

record ISlimshellConfig =
  title :: "string option"
  version :: "string option"
  exitCommands :: "string list option"

text \<open>Lines 61-65. Every field of \<^verbatim>\<open>DEFAULT_CONFIG\<close> is set.\<close>

definition DEFAULT_CONFIG_title :: string where
  "DEFAULT_CONFIG_title = ''Slimshell''"

definition DEFAULT_CONFIG_version :: string where
  "DEFAULT_CONFIG_version = ''1.0.0''"

definition DEFAULT_CONFIG_exitCommands :: "string list" where
  "DEFAULT_CONFIG_exitCommands = [''exit'']"

section \<open>Plain objects and their prototypes\<close>

text \<open>
  The tables of the JavaScript runtime that the program reads through its two plain
  objects (the registry \<^verbatim>\<open>this.cds\<close> and the bag that \<^verbatim>\<open>minimist\<close> returns): the
  string-named members of \<^verbatim>\<open>Object.prototype\<close> and of \<^verbatim>\<open>Array.prototype\<close> (ECMAScript 2023
  with the legacy accessors of its Annex B, as Node.js has them). All of them are
  functions, but \<^verbatim>\<open>__proto__\<close>, an accessor that reads and replaces the prototype.
\<close>

definition Object_prototype :: "string list" where
  "Object_prototype =
     [''constructor'', ''__defineGetter__'', ''__defineSetter__'', ''hasOwnProperty'',
      ''__lookupGetter__'', ''__lookupSetter__'', ''isPrototypeOf'', ''propertyIsEnumerable'',
      ''toString'', ''valueOf'', ''__proto__'', ''toLocaleString'']"

definition Array_prototype :: "string list" where
  "Array_prototype =
     [''at'', ''concat'', ''copyWithin'', ''entries'', ''every'', ''fill'', ''filter'', ''find'',
      ''findIndex'', ''findLast'', ''findLastIndex'', ''flat'', ''flatMap'', ''forEach'',
      ''includes'', ''indexOf'', ''join'', ''keys'', ''lastIndexOf'', ''map'', ''pop'', ''push'',
      ''reduce'', ''reduceRight'', ''reverse'', ''shift'', ''slice'', ''some'', ''sort'',
      ''splice'', ''toReversed'', ''toSorted'', ''toSpliced'', ''values'', ''with'']"

text \<open>The name of the array index \<open>n\<close>: its decimal numeral.\<close>

function decimal :: "nat \<Rightarrow> string" where
  "decimal n =
     (if n < 10 then [char_of (48 + n)] else decimal (n div 10) @ [char_of (48 + n mod 10)])"
  by pat_completeness auto
termination
  by (relation "measure id") auto

declare decimal.simps [simp del]

section \<open>The process: terminal input, console output, listeners\<close>

text \<open>
  What the user will type is a finite script of key events: a whole line (ended by
  return) or the escape key. A promise that waits for input when the script is
  exhausted stays pending: the outcome \<open>Awaits\<close>. An exception (a rejected promise) is
  the outcome \<open>Throws\<close>.

  Everything observable is appended to the trace \<open>out\<close>: a \<^verbatim>\<open>console.log\<close>, the query
  written by \<^verbatim>\<open>readline.question\<close>, and the invocation of a handler (the address of its
  command definition and the bag it receives). The colour that \<^verbatim>\<open>chalk\<close> gives a
  string is kept as a constructor.
\<close>

datatype styled = Plain string | Cyan string | Yellow string

datatype event = ConsoleLog styled | Question styled | Invoke nat IArguments

datatype key = Line string | Escape

datatype error = TypeError | Rejected

datatype 'a outcome = Returns 'a | Throws error | Awaits

text \<open>
  The fields of the class (lines 72-74) and, below them, the state of the process it
  acts on. The registry \<^verbatim>\<open>this.cds\<close> is its own properties \<open>cds\<close> and its prototype
  \<open>cds_proto\<close>: \<open>None\<close> is \<^verbatim>\<open>Object.prototype\<close>, the prototype of \<^verbatim>\<open>{}\<close>; \<open>Some l\<close> is the array
  \<open>l\<close> of definitions that an assignment to \<^verbatim>\<open>this.cds["__proto__"]\<close> has put in its
  place. The process: the readline interfaces created so far (an interface is named by its
  number) and those closed, whether keypress events are emitted on \<^verbatim>\<open>process.stdin\<close>,
  the number of \<^verbatim>\<open>keypress\<close> listeners attached to \<^verbatim>\<open>process.stdin\<close> by this program,
  the terminal flags, the script and the trace.
\<close>

record Slimshell =
  config :: ISlimshellConfig
  cds :: "string \<rightharpoonup> nat list"
  cds_proto :: "nat list option"
  heap :: "ICommandDefinition list"
  input :: "nat option"
  interfaces :: nat
  closed :: "nat list"
  keypressEvents :: bool
  keypress :: nat
  isTTY :: bool
  rawMode :: bool
  stdin :: "key list"
  out :: "event list"

definition console_log :: "styled \<Rightarrow> Slimshell \<Rightarrow> Slimshell" where
  "console_log x s = s\<lparr>out := out s @ [ConsoleLog x]\<rparr>"

section \<open>Reading and writing the registry\<close>

text \<open>
  What \<^verbatim>\<open>this.cds[k]\<close> evaluates to: undefined, an array of definitions, or another
  value (a function, a number, an object), of which the program only sees whether it
  is truthy; no such value has a method \<^verbatim>\<open>find\<close> or \<^verbatim>\<open>push\<close>.

  An own property wins. Otherwise \<^verbatim>\<open>__proto__\<close> reads the prototype itself, and any other
  name is looked up in the prototype: in \<^verbatim>\<open>Object.prototype\<close>, or, when the prototype is
  an array, in its indices, its \<^verbatim>\<open>length\<close>, \<^verbatim>\<open>Array.prototype\<close> and \<^verbatim>\<open>Object.prototype\<close>.
\<close>

datatype slot = Undefined | Defs "nat list" | Other bool

definition inherited :: "nat list option \<Rightarrow> string \<Rightarrow> slot" where
  "inherited p k =
     (case p of
        None \<Rightarrow> if k \<in> set Object_prototype then Other True else Undefined
      | Some l \<Rightarrow>
          if k = ''length'' then Other (l \<noteq> [])
          else if k \<in> set (map decimal [0..<length l]) \<or> k \<in> set Array_prototype
                  \<or> k \<in> set Object_prototype
          then Other True else Undefined)"

definition cds_get :: "Slimshell \<Rightarrow> string \<Rightarrow> slot" where
  "cds_get s k =
     (case cds s k of
        Some l \<Rightarrow> Defs l
      | None \<Rightarrow>
          if k = ''__proto__'' then (case cds_proto s of None \<Rightarrow> Other True | Some l \<Rightarrow> Defs l)
          else inherited (cds_proto s) k)"

text \<open>
  \<^verbatim>\<open>this.cds[k] = l\<close>: the accessor \<^verbatim>\<open>__proto__\<close> makes the array the prototype; any other
  name becomes, or stays, an own property (the members of the prototypes are writable).
  \<^verbatim>\<open>this.cds[k].push(a)\<close>, where \<^verbatim>\<open>this.cds[k]\<close> is an array, extends that array in place.
\<close>

definition cds_set :: "string \<Rightarrow> nat list \<Rightarrow> Slimshell \<Rightarrow> Slimshell" where
  "cds_set k l s =
     (if k = ''__proto__'' \<and> cds s k = None then s\<lparr>cds_proto := Some l\<rparr>
      else s\<lparr>cds := (cds s)(k \<mapsto> l)\<rparr>)"

definition cds_push :: "string \<Rightarrow> nat \<Rightarrow> Slimshell \<Rightarrow> Slimshell" where
  "cds_push k a s =
     (case cds s k of
        Some l \<Rightarrow> s\<lparr>cds := (cds s)(k \<mapsto> l @ [a])\<rparr>
      | None \<Rightarrow>
          (case cds_proto s of
             Some l \<Rightarrow> s\<lparr>cds_proto := Some (l @ [a])\<rparr>
           | None \<Rightarrow> s))"

section \<open>Reading the argument bag\<close>

text \<open>
  The bag is the plain object that \<^verbatim>\<open>minimist\<close> returns; its prototype stays
  \<^verbatim>\<open>Object.prototype\<close> (the program assigns to a name of the bag only where the value read
  there is falsy, which the inherited \<^verbatim>\<open>__proto__\<close> is not). \<^verbatim>\<open>!x\<close> is true of undefined, the
  empty string, zero and false; \<open>bag_truthy\<close> is \<^verbatim>\<open>!!args[k]\<close> and \<open>bag_defined\<close> is
  \<^verbatim>\<open>args[k] !== undefined\<close>: an inherited member is a function or an object.
\<close>

fun truthy :: "jsval option \<Rightarrow> bool" where
  "truthy None = False"
| "truthy (Some (VStr v)) = (v \<noteq> [])"
| "truthy (Some (VNum n)) = (n \<noteq> 0)"
| "truthy (Some (VBool b)) = b"
| "truthy (Some (VArr vs)) = True"
| "truthy (Some VUndefined) = False"

definition bag_truthy :: "IArguments \<Rightarrow> string \<Rightarrow> bool" where
  "bag_truthy args k =
     (case args k of Some v \<Rightarrow> truthy (Some v) | None \<Rightarrow> k \<in> set Object_prototype)"

definition bag_defined :: "IArguments \<Rightarrow> string \<Rightarrow> bool" where
  "bag_defined args k =
     (case args k of Some v \<Rightarrow> v \<noteq> VUndefined | None \<Rightarrow> k \<in> set Object_prototype)"

section \<open>Strings\<close>

text \<open>
  A string is the list of the bytes of its UTF-8 encoding. \<^verbatim>\<open>String.prototype.trim\<close>
  strips, at both ends, the white space and the line terminators of ECMAScript:
  U+0009 to U+000D, U+0020, U+00A0, U+1680, U+2000 to U+200A, U+2028, U+2029, U+202F,
  U+205F, U+3000 and U+FEFF, here by their encodings.
\<close>

definition blanks :: "string list" where
  "blanks =
     [ [CHR 0x09], [CHR 0x0A], [CHR 0x0B], [CHR 0x0C], [CHR 0x0D], [CHR 0x20],
      [CHR 0xC2, CHR 0xA0], [CHR 0xE1, CHR 0x9A, CHR 0x80],
      [CHR 0xE2, CHR 0x80, CHR 0x80], [CHR 0xE2, CHR 0x80, CHR 0x81],
      [CHR 0xE2, CHR 0x80, CHR 0x82], [CHR 0xE2, CHR 0x80, CHR 0x83],
      [CHR 0xE2, CHR 0x80, CHR 0x84], [CHR 0xE2, CHR 0x80, CHR 0x85],
      [CHR 0xE2, CHR 0x80, CHR 0x86], [CHR 0xE2, CHR 0x80, CHR 0x87],
      [CHR 0xE2, CHR 0x80, CHR 0x88], [CHR 0xE2, CHR 0x80, CHR 0x89],
      [CHR 0xE2, CHR 0x80, CHR 0x8A], [CHR 0xE2, CHR 0x80, CHR 0xA8],
      [CHR 0xE2, CHR 0x80, CHR 0xA9], [CHR 0xE2, CHR 0x80, CHR 0xAF],
      [CHR 0xE2, CHR 0x81, CHR 0x9F], [CHR 0xE3, CHR 0x80, CHR 0x80],
      [CHR 0xEF, CHR 0xBB, CHR 0xBF]]"

text \<open>The string without the first of the sequences \<open>bs\<close> that it starts with, if any.\<close>

fun strip_prefix :: "string list \<Rightarrow> string \<Rightarrow> string option" where
  "strip_prefix [] v = None"
| "strip_prefix (b # bs) v =
     (if b \<noteq> [] \<and> take (length b) v = b then Some (drop (length b) v)
      else strip_prefix bs v)"

lemma strip_prefix_shorter: "strip_prefix bs v = Some w \<Longrightarrow> length w < length v"
proof (induction bs)
  case Nil
  then show ?case by simp
next
  case (Cons b bs)
  show ?case
  proof (cases "b \<noteq> [] \<and> take (length b) v = b")
    case True
    with Cons.prems have w: "w = drop (length b) v" by simp
    from True have "length (take (length b) v) = length b" by simp
    then have "length b \<le> length v" by simp
    with True w show ?thesis by (cases b) auto
  next
    case False
    with Cons show ?thesis by auto
  qed
qed

function trimStart :: "string list \<Rightarrow> string \<Rightarrow> string" where
  "trimStart bs v = (case strip_prefix bs v of None \<Rightarrow> v | Some w \<Rightarrow> trimStart bs w)"
  by pat_completeness auto
termination
  by (relation "measure (\<lambda>(bs, v). length v)") (auto dest: strip_prefix_shorter)

declare trimStart.simps [simp del]

definition trim :: "string \<Rightarrow> string" where
  "trim v = rev (trimStart (map rev blanks) (rev (trimStart blanks v)))"

text \<open>
  \<^verbatim>\<open>command.split(" ")\<close> cuts at every single space. The array it returns is never
  empty, so the result is the pair of its first atom (\<^verbatim>\<open>atoms[0]\<close>) and the atoms after it
  (\<^verbatim>\<open>atoms.slice(1)\<close>).
\<close>

fun split_space :: "string \<Rightarrow> string \<times> string list" where
  "split_space [] = ([], [])"
| "split_space (c # cs) =
     (case split_space cs of
        (w, ws) \<Rightarrow> if c = CHR '' '' then ([], w # ws) else (c # w, ws))"

section \<open>Construction (lines 76-99)\<close>

text \<open>
  \<^verbatim>\<open>initInput\<close>: close the interface held, if any; create a new one; switch keypress
  events on for \<^verbatim>\<open>process.stdin\<close>. It neither adds nor removes a keypress listener.
\<close>

definition initInput :: "Slimshell \<Rightarrow> Slimshell" where
  "initInput s =
     (let s1 = (case input s of
                  Some i \<Rightarrow> s\<lparr>closed := closed s @ [i]\<rparr>
                | None \<Rightarrow> s);
          s2 = s1\<lparr>input := Some (interfaces s1), interfaces := Suc (interfaces s1)\<rparr>
      in s2\<lparr>keypressEvents := True\<rparr>)"

text \<open>\<^verbatim>\<open>x || d\<close> on an optional string: the default replaces undefined and the empty string.\<close>

definition or_default :: "string option \<Rightarrow> string \<Rightarrow> string" where
  "or_default x d = (case x of None \<Rightarrow> d | Some t \<Rightarrow> if t = [] then d else t)"

text \<open>
  Lines 83-85: each exit verb gets a fresh one-element list holding a fresh definition
  \<^verbatim>\<open>{ verb: ec, command: exit }\<close>; a verb that occurs twice is assigned twice.
\<close>

fun install_exits :: "string list \<Rightarrow> Slimshell \<Rightarrow> Slimshell" where
  "install_exits [] s = s"
| "install_exits (ec # ecs) s =
     install_exits ecs
       (cds_set ec [length (heap s)]
          (s\<lparr>heap := heap s @ [\<lparr>verb = ec, noun = None, command = exit,
                                  requiredArguments = None\<rparr>]\<rparr>))"

text \<open>
  The object before the body of the constructor has filled the registry, in a fresh
  process whose terminal flag is \<open>tty\<close> and whose user will type \<open>script\<close>: the registry
  is \<^verbatim>\<open>{}\<close>; no definition, no interface, no listener, nothing written.
\<close>

definition fresh :: "ISlimshellConfig \<Rightarrow> bool \<Rightarrow> key list \<Rightarrow> Slimshell" where
  "fresh c tty script =
     \<lparr>config = c, cds = Map.empty, cds_proto = None, heap = [], input = None,
      interfaces = 0, closed = [], keypressEvents = False, keypress = 0,
      isTTY = tty, rawMode = False, stdin = script, out = []\<rparr>"

text \<open>
  The constructor. Line 80 spreads \<^verbatim>\<open>config.exitCommands\<close>: spreading \<^verbatim>\<open>undefined\<close> throws a
  TypeError.
\<close>

definition constructor :: "ISlimshellConfig \<Rightarrow> bool \<Rightarrow> key list \<Rightarrow> error + Slimshell" where
  "constructor cfg tty script =
     (case exitCommands cfg of
        None \<Rightarrow> Inl TypeError
      | Some ecs \<Rightarrow>
          (let c = \<lparr>title = Some (or_default (title cfg) DEFAULT_CONFIG_title),
                    version = Some (or_default (version cfg) DEFAULT_CONFIG_version),
                    exitCommands = Some (ecs @ DEFAULT_CONFIG_exitCommands)\<rparr>
           in Inr (initInput (install_exits (ecs @ DEFAULT_CONFIG_exitCommands)
                                (fresh c tty script)))))"

section \<open>Reading a command and an argument (lines 101-127)\<close>

definition normaliseCommand :: "string \<Rightarrow> string" where
  "normaliseCommand cmd = trim cmd"

text \<open>
  The next whole line of the script. An escape key pressed while a command is read
  reaches only the keypress listeners of earlier prompts, whose promises are settled.
  On a terminal the line editor of readline drops the key; off a terminal its byte
  stays in the line that is read.
\<close>

fun next_line :: "bool \<Rightarrow> key list \<Rightarrow> (string \<times> key list) option" where
  "next_line tty [] = None"
| "next_line tty (Escape # ks) =
     (if tty then next_line tty ks
      else map_option (\<lambda>(v, r). (CHR 0x1B # v, r)) (next_line tty ks))"
| "next_line tty (Line v # ks) = Some (v, ks)"

definition getCommand :: "Slimshell \<Rightarrow> string outcome \<times> Slimshell" where
  "getCommand s =
     (let s1 = s\<lparr>out := out s @ [Question (Plain ''> '')]\<rparr>
      in case next_line (isTTY s1) (stdin s1) of
           None \<Rightarrow> (Awaits, s1\<lparr>stdin := []\<rparr>)
         | Some (cmd, ks) \<Rightarrow> (Returns cmd, s1\<lparr>stdin := ks\<rparr>))"

text \<open>
  \<^verbatim>\<open>getArgument\<close>: raw mode on a terminal, one more keypress listener on
  \<^verbatim>\<open>process.stdin\<close>, the query \<^verbatim>\<open>"  $" + description + ": "\<close> in yellow; then the promise
  settles with the next key event: a line resolves it with the trimmed line, the escape
  key rejects it.
\<close>

definition getArgument :: "IArgumentDefinition \<Rightarrow> Slimshell \<Rightarrow> string outcome \<times> Slimshell" where
  "getArgument req s =
     (let s1 = (if isTTY s then s\<lparr>rawMode := True\<rparr> else s);
          s2 = s1\<lparr>keypress := Suc (keypress s1)\<rparr>;
          s3 = s2\<lparr>out := out s2 @ [Question (Yellow (''  $'' @ description req @ '': ''))]\<rparr>
      in case stdin s3 of
           [] \<Rightarrow> (Awaits, s3)
         | Escape # ks \<Rightarrow> (Throws Rejected, s3\<lparr>stdin := ks\<rparr>)
         | Line v # ks \<Rightarrow> (Returns (trim v), s3\<lparr>stdin := ks\<rparr>))"

section \<open>Dispatch (lines 129-174)\<close>

text \<open>
  \<^verbatim>\<open>def.noun === noun\<close>: the noun of a definition is a string or undefined, the parsed
  noun is the first positional value (a string or a number) or undefined. An undefined
  noun is \<open>None\<close> on both sides (\<open>parseCommand\<close> below never passes \<open>Some VUndefined\<close>).
\<close>

fun noun_eq :: "string option \<Rightarrow> jsval option \<Rightarrow> bool" where
  "noun_eq None None = True"
| "noun_eq (Some n) (Some (VStr m)) = (n = m)"
| "noun_eq _ _ = False"

text \<open>
  Lines 136-138: \<^verbatim>\<open>this.cds[verb]?.find(def => def.noun === noun)\<close>, as an address. The
  optional chaining stops at undefined only: on any other value that is not an array,
  \<^verbatim>\<open>find\<close> is undefined and the call throws a TypeError.
\<close>

definition lookup :: "Slimshell \<Rightarrow> string \<Rightarrow> jsval option \<Rightarrow> error + nat option" where
  "lookup s v n =
     (case cds_get s v of
        Undefined \<Rightarrow> Inr None
      | Defs defs \<Rightarrow> Inr (find (\<lambda>a. noun_eq (noun (heap s ! a)) n) defs)
      | Other b \<Rightarrow> Inl TypeError)"

datatype resolution = Resolved IArguments | Cancelled

text \<open>
  Lines 152-162, the \<^verbatim>\<open>while (!args[req.name])\<close> loop: ask until the value is truthy; a
  rejected prompt is caught, the input is initialised again, \<^verbatim>\<open>Cancelled\<close> is logged and
  \<^verbatim>\<open>runCommand\<close> returns early.
\<close>

function promptLoop :: "IArgumentDefinition \<Rightarrow> IArguments \<Rightarrow> Slimshell \<Rightarrow> resolution outcome \<times> Slimshell" where
  "promptLoop req args s =
     (if bag_truthy args (name req) then (Returns (Resolved args), s)
      else (case getArgument req s of
              (Returns v, s1) \<Rightarrow> promptLoop req (args(name req \<mapsto> VStr v)) s1
            | (Throws e, s1) \<Rightarrow> (Returns Cancelled, console_log (Plain ''Cancelled'') (initInput s1))
            | (Awaits, s1) \<Rightarrow> (Awaits, s1)))"
  by pat_completeness auto
termination
  by (relation "measure (\<lambda>(req, args, s). length (stdin s))")
     (auto simp: getArgument_def Let_def split: list.splits key.splits if_splits)

declare promptLoop.simps [simp del]

text \<open>
  Lines 147-164, the \<^verbatim>\<open>for (const req of cd.requiredArguments)\<close> loop. When the value of
  \<^verbatim>\<open>req.name\<close> is falsy, line 149 stores, as an own property, the result of
  \<^verbatim>\<open>req.alternatives.find(...)\<close>: the first alternative \<^emph>\<open>name\<close> that is defined in the bag,
  or undefined. Calling \<^verbatim>\<open>find\<close> on an absent \<^verbatim>\<open>alternatives\<close> throws a TypeError, outside
  the \<^verbatim>\<open>try\<close>.
\<close>

definition store_alternative :: "IArguments \<Rightarrow> string \<Rightarrow> string list \<Rightarrow> IArguments" where
  "store_alternative args k alts =
     args(k \<mapsto> (case find (bag_defined args) alts of
                   None \<Rightarrow> VUndefined
                 | Some alt \<Rightarrow> VStr alt))"

fun resolveArguments ::
  "IArgumentDefinition list \<Rightarrow> IArguments \<Rightarrow> Slimshell \<Rightarrow> resolution outcome \<times> Slimshell" where
  "resolveArguments [] args s = (Returns (Resolved args), s)"
| "resolveArguments (req # reqs) args s =
     (if \<not> bag_truthy args (name req) then
        (case alternatives req of
           None \<Rightarrow> (Throws TypeError, s)
         | Some alts \<Rightarrow>
             (case promptLoop req (store_alternative args (name req) alts) s of
                (Returns (Resolved args'), s') \<Rightarrow> resolveArguments reqs args' s'
              | (Returns Cancelled, s') \<Rightarrow> (Returns Cancelled, s')
              | (Throws e, s') \<Rightarrow> (Throws e, s')
              | (Awaits, s') \<Rightarrow> (Awaits, s')))
      else resolveArguments reqs args s)"

text \<open>Line 145: \<^verbatim>\<open>if (cd.requiredArguments)\<close>; an array, even an empty one, is truthy.\<close>

definition resolve :: "ICommandDefinition \<Rightarrow> IArguments \<Rightarrow> Slimshell \<Rightarrow> resolution outcome \<times> Slimshell" where
  "resolve cd args s =
     (case requiredArguments cd of
        None \<Rightarrow> (Returns (Resolved args), s)
      | Some reqs \<Rightarrow> resolveArguments reqs args s)"

text \<open>Lines 166-172: call the handler, log each message in cyan, return \<^verbatim>\<open>success\<close>.\<close>

definition invoke :: "nat \<Rightarrow> IArguments \<Rightarrow> Slimshell \<Rightarrow> bool outcome \<times> Slimshell" where
  "invoke cd args s =
     (let response = command (heap s ! cd) args;
          s1 = s\<lparr>out := out s @ [Invoke cd args]\<rparr>;
          s2 = (case messages response of
                  None \<Rightarrow> s1
                | Some msgs \<Rightarrow> foldl (\<lambda>t msg. console_log (Cyan (''  '' @ msg)) t) s1 msgs)
      in (Returns (success response), s2))"

text \<open>
  The flag tokenizer \<^verbatim>\<open>minimist\<close> is a library outside the repository: a parameter, which
  maps the atoms after the verb to the positional values and the flags. The bag is the
  flags with the array of positional values stored under \<^verbatim>\<open>_\<close>, as \<^verbatim>\<open>minimist\<close> returns
  it. Lines 130-133: the verb is the first atom, the noun is the first positional
  value or undefined (a first positional value that is itself undefined is undefined).
\<close>

record parsed =
  positional :: "jsval list"
  flags :: IArguments

definition bag :: "parsed \<Rightarrow> IArguments" where
  "bag p = (flags p)(''_'' \<mapsto> VArr (positional p))"

definition parseCommand ::
  "(string list \<Rightarrow> parsed) \<Rightarrow> string \<Rightarrow> string \<times> jsval option \<times> IArguments" where
  "parseCommand minimist cmd =
     (case split_space cmd of
        (v, atoms) \<Rightarrow>
          (let p = minimist atoms
           in (v,
               (case positional p of
                  [] \<Rightarrow> None
                | x # xs \<Rightarrow> if x = VUndefined then None else Some x),
               bag p)))"

definition runCommand :: "(string list \<Rightarrow> parsed) \<Rightarrow> string \<Rightarrow> Slimshell \<Rightarrow> bool outcome \<times> Slimshell" where
  "runCommand minimist cmd s =
     (case parseCommand minimist cmd of
        (v, n, args) \<Rightarrow>
          (case lookup s v n of
             Inl e \<Rightarrow> (Throws e, s)
           | Inr None \<Rightarrow> (Returns True, console_log (Cyan ''  wut?'') s)
           | Inr (Some cd) \<Rightarrow>
               (case resolve (heap s ! cd) args s of
                  (Returns (Resolved args'), s') \<Rightarrow> invoke cd args' s'
                | (Returns Cancelled, s') \<Rightarrow> (Returns True, s')
                | (Throws e, s') \<Rightarrow> (Throws e, s')
                | (Awaits, s') \<Rightarrow> (Awaits, s'))))"

section \<open>The builder (lines 176-184 and 200-235)\<close>

text \<open>
  A stage object holds the shell and the address of the one command definition that
  \<^verbatim>\<open>on\<close> created; each stage method mutates that definition in the store and returns a
  stage on the same address. Lines 177-182: where \<^verbatim>\<open>this.cds[verb]\<close> is falsy, \<^verbatim>\<open>on\<close>
  assigns it an empty list; it allocates the definition \<^verbatim>\<open>{ verb, command: NoCommand }\<close>
  and pushes it at the end of \<^verbatim>\<open>this.cds[verb]\<close>. Where \<^verbatim>\<open>this.cds[verb]\<close> is truthy and not
  an array (an inherited member), \<^verbatim>\<open>push\<close> is undefined and the call throws a TypeError:
  nothing is registered.
\<close>

definition on :: "string \<Rightarrow> Slimshell \<Rightarrow> error + nat \<times> Slimshell" where
  "on v s =
     (let s1 = (case cds_get s v of
                  Undefined \<Rightarrow> cds_set v [] s
                | Other False \<Rightarrow> cds_set v [] s
                | _ \<Rightarrow> s);
          cd = length (heap s1);
          s2 = s1\<lparr>heap := heap s1 @ [\<lparr>verb = v, noun = None, command = NoCommand,
                                        requiredArguments = None\<rparr>]\<rparr>
      in case cds_get s2 v of
           Defs l \<Rightarrow> Inr (cd, cds_push v cd s2)
         | _ \<Rightarrow> Inl TypeError)"

definition ss_with :: "nat \<Rightarrow> string \<Rightarrow> Slimshell \<Rightarrow> nat \<times> Slimshell" where
  "ss_with cd n s = (cd, s\<lparr>heap := (heap s)[cd := (heap s ! cd)\<lparr>noun := Some n\<rparr>]\<rparr>)"

definition call :: "nat \<Rightarrow> Command \<Rightarrow> Slimshell \<Rightarrow> nat \<times> Slimshell" where
  "call cd c s = (cd, s\<lparr>heap := (heap s)[cd := (heap s ! cd)\<lparr>command := c\<rparr>]\<rparr>)"

definition requiring :: "nat \<Rightarrow> IArgumentDefinition list \<Rightarrow> Slimshell \<Rightarrow> nat \<times> Slimshell" where
  "requiring cd reqs s =
     (cd, s\<lparr>heap := (heap s)[cd := (heap s ! cd)\<lparr>requiredArguments := Some reqs\<rparr>]\<rparr>)"

section \<open>The loop (lines 186-197)\<close>

text \<open>
  Helper facts: what \<^verbatim>\<open>runCommand\<close> leaves of the script is never longer than what it
  found, so the loop below, which reads at least one line per iteration, terminates on
  every finite script.
\<close>

lemma foldl_console_log_eq:
  "foldl (\<lambda>t msg. console_log (f msg) t) s msgs =
     s\<lparr>out := out s @ map (\<lambda>msg. ConsoleLog (f msg)) msgs\<rparr>"
  by (induction msgs arbitrary: s) (simp_all add: console_log_def)

lemma invoke_eq:
  "invoke cd args s =
     (Returns (success (command (heap s ! cd) args)),
      s\<lparr>out := out s @ Invoke cd args #
         (case messages (command (heap s ! cd) args) of
            None \<Rightarrow> []
          | Some msgs \<Rightarrow> map (\<lambda>msg. ConsoleLog (Cyan (''  '' @ msg))) msgs)\<rparr>)"
  by (simp add: invoke_def Let_def foldl_console_log_eq split: option.splits)


lemma promptLoop_truthy:
  "bag_truthy args (name req) \<Longrightarrow> promptLoop req args s = (Returns (Resolved args), s)"
  by (simp add: promptLoop.simps)

lemma promptLoop_Returns:
  "\<not> bag_truthy args (name req) \<Longrightarrow> getArgument req s = (Returns v, s1) \<Longrightarrow>
   promptLoop req args s = promptLoop req (args(name req \<mapsto> VStr v)) s1"
  by (subst promptLoop.simps) simp

lemma promptLoop_Throws:
  "\<not> bag_truthy args (name req) \<Longrightarrow> getArgument req s = (Throws e, s1) \<Longrightarrow>
   promptLoop req args s = (Returns Cancelled, console_log (Plain ''Cancelled'') (initInput s1))"
  by (subst promptLoop.simps) simp

lemma promptLoop_Awaits:
  "\<not> bag_truthy args (name req) \<Longrightarrow> getArgument req s = (Awaits, s1) \<Longrightarrow>
   promptLoop req args s = (Awaits, s1)"
  by (subst promptLoop.simps) simp

text \<open>
  An induction rule for the prompt loop: a property of its result holds when it holds
  at each of its three exits and is carried backwards over an answered prompt.
\<close>

lemma promptLoop_cases [consumes 1, case_names truthy awaits cancelled answered]:
  assumes run: "promptLoop req args s = (r, s')"
    and t: "\<And>args s. bag_truthy args (name req) \<Longrightarrow> P args s (Returns (Resolved args)) s"
    and a: "\<And>args s s1. \<not> bag_truthy args (name req) \<Longrightarrow>
        getArgument req s = (Awaits, s1) \<Longrightarrow> P args s Awaits s1"
    and c: "\<And>args s e s1. \<not> bag_truthy args (name req) \<Longrightarrow>
        getArgument req s = (Throws e, s1) \<Longrightarrow>
        P args s (Returns Cancelled) (console_log (Plain ''Cancelled'') (initInput s1))"
    and n: "\<And>args s v s1 r s'. \<not> bag_truthy args (name req) \<Longrightarrow>
        getArgument req s = (Returns v, s1) \<Longrightarrow>
        promptLoop req (args(name req \<mapsto> VStr v)) s1 = (r, s') \<Longrightarrow>
        P (args(name req \<mapsto> VStr v)) s1 r s' \<Longrightarrow> P args s r s'"
  shows "P args s r s'"
proof -
  have "\<forall>r s'. q = req \<longrightarrow> promptLoop q args s = (r, s') \<longrightarrow> P args s r s'" for q
  proof (induction q args s rule: promptLoop.induct)
    case (1 q args s)
    show ?case
    proof (intro allI impI)
      fix r s'
      assume q: "q = req" and run: "promptLoop q args s = (r, s')"
      show "P args s r s'"
      proof (cases "bag_truthy args (name req)")
        case True
        with run q have "r = Returns (Resolved args)" and "s' = s"
          by (simp_all add: promptLoop_truthy)
        with t [of args s, OF True] show ?thesis by simp
      next
        case False
        obtain g s1 where g: "getArgument req s = (g, s1)" by (cases "getArgument req s")
        show ?thesis
        proof (cases g)
          case (Returns v)
          with False g run q have rec: "promptLoop req (args(name req \<mapsto> VStr v)) s1 = (r, s')"
            by (simp add: promptLoop_Returns)
          from Returns g q have g': "(Returns v, s1) = getArgument q s" by simp
          from False q have F: "\<not> bag_truthy args (name q)" by simp
          from "1.IH" [OF F g' refl] q rec have "P (args(name req \<mapsto> VStr v)) s1 r s'"
            by blast
          with n [of args s v s1 r s', OF False g [unfolded Returns] rec] show ?thesis by simp
        next
          case (Throws e)
          with False g run q
          have "r = Returns Cancelled" and "s' = console_log (Plain ''Cancelled'') (initInput s1)"
            by (simp_all add: promptLoop_Throws)
          with c [of args s e s1, OF False g [unfolded Throws]] show ?thesis by simp
        next
          case Awaits
          with False g run q have "r = Awaits" and "s' = s1"
            by (simp_all add: promptLoop_Awaits)
          with a [of args s s1, OF False g [unfolded Awaits]] show ?thesis by simp
        qed
      qed
    qed
  qed
  with run show ?thesis by simp
qed

lemma getArgument_stdin:
  "getArgument req s = (r, s') \<Longrightarrow> length (stdin s') \<le> length (stdin s)"
  by (auto simp: getArgument_def Let_def split: list.splits key.splits if_splits)

lemma initInput_stdin: "stdin (initInput s) = stdin s"
  by (simp add: initInput_def Let_def split: option.splits)

lemma promptLoop_stdin:
  "promptLoop req args s = (r, s') \<Longrightarrow> length (stdin s') \<le> length (stdin s)"
proof (induction rule: promptLoop_cases)
  case (cancelled args s e s1)
  then show ?case
    using getArgument_stdin [of req s "Throws e" s1]
    by (simp add: console_log_def initInput_stdin)
qed (auto dest: getArgument_stdin)

lemma resolveArguments_stdin:
  "resolveArguments reqs args s = (r, s') \<Longrightarrow> length (stdin s') \<le> length (stdin s)"
proof (induction reqs arbitrary: args s)
  case Nil
  then show ?case by simp
next
  case (Cons req reqs)
  show ?case
  proof (cases "bag_truthy args (name req)")
    case True
    with Cons show ?thesis by simp
  next
    case False
    show ?thesis
    proof (cases "alternatives req")
      case None
      with False Cons.prems show ?thesis by simp
    next
      case (Some alts)
      let ?args = "store_alternative args (name req) alts"
      obtain p s1 where p: "promptLoop req ?args s = (p, s1)"
        by (cases "promptLoop req ?args s")
      note le = promptLoop_stdin [OF p]
      from False Some p Cons.prems le Cons.IH show ?thesis
        by (auto split: outcome.splits resolution.splits dest: order_trans)
    qed
  qed
qed

lemma resolve_stdin:
  "resolve cd args s = (r, s') \<Longrightarrow> length (stdin s') \<le> length (stdin s)"
  by (auto simp: resolve_def split: option.splits dest: resolveArguments_stdin)

lemma runCommand_stdin:
  "runCommand minimist cmd s = (r, s') \<Longrightarrow> length (stdin s') \<le> length (stdin s)"
  by (auto simp: runCommand_def invoke_eq console_log_def
      split: option.splits prod.splits outcome.splits resolution.splits sum.splits
      dest: resolve_stdin)

lemma next_line_shorter: "next_line tty ks = Some (v, ks') \<Longrightarrow> length ks' < length ks"
  by (induction tty ks arbitrary: v rule: next_line.induct) (auto split: if_splits)

lemma getCommand_stdin:
  "getCommand s = (Returns cmd, s') \<Longrightarrow> length (stdin s') < length (stdin s)"
  by (auto simp: getCommand_def Let_def split: option.splits dest: next_line_shorter)

text \<open>
  One iteration of \<^verbatim>\<open>while (running)\<close>: read a command, normalise it, run it. The
  value returned is the new value of \<^verbatim>\<open>running\<close>.
\<close>

definition iteration :: "(string list \<Rightarrow> parsed) \<Rightarrow> Slimshell \<Rightarrow> bool outcome \<times> Slimshell" where
  "iteration minimist s =
     (case getCommand s of
        (Returns cmd, s1) \<Rightarrow> runCommand minimist (normaliseCommand cmd) s1
      | (Throws e, s1) \<Rightarrow> (Throws e, s1)
      | (Awaits, s1) \<Rightarrow> (Awaits, s1))"

lemma iteration_stdin:
  "iteration minimist s = (Returns running, s') \<Longrightarrow> length (stdin s') < length (stdin s)"
  by (auto simp: iteration_def split: prod.splits outcome.splits
      dest!: getCommand_stdin runCommand_stdin)

function run :: "(string list \<Rightarrow> parsed) \<Rightarrow> Slimshell \<Rightarrow> bool outcome \<times> Slimshell" where
  "run minimist s =
     (case iteration minimist s of
        (Returns running, s') \<Rightarrow> if running then run minimist s' else (Returns True, s')
      | (Throws e, s') \<Rightarrow> (Throws e, s')
      | (Awaits, s') \<Rightarrow> (Awaits, s'))"
  by pat_completeness auto
termination
  by (relation "measure (\<lambda>(minimist, s). length (stdin s))")
     (auto dest: iteration_stdin [OF sym])

declare run.simps [simp del]

section \<open>Observations on the trace, the input and the registry\<close>

text \<open>
  The definitions of this section are not code of the program: they name what the
  claims speak about. An argument prompt is a yellow query on the trace (the query of
  \<^verbatim>\<open>getArgument\<close>; the command prompt \<^verbatim>\<open>"> "\<close> is plain).
\<close>

fun is_prompt :: "event \<Rightarrow> bool" where
  "is_prompt (Question (Yellow q)) = True"
| "is_prompt e = False"

definition prompts :: "event list \<Rightarrow> nat" where
  "prompts es = length (filter is_prompt es)"

text \<open>The handler invocations recorded on a trace, in order.\<close>

fun invocations :: "event list \<Rightarrow> (nat \<times> IArguments) list" where
  "invocations [] = []"
| "invocations (Invoke cd args # es) = (cd, args) # invocations es"
| "invocations (e # es) = invocations es"

text \<open>
  What argument resolution may do to the state between \<open>s\<close> and \<open>s'\<close>: it writes
  queries, it consumes the lines that answer them, and, when it is cancelled, it
  consumes the escape key, initialises the input again (the interface held is closed
  and a new one is created) and logs \<^verbatim>\<open>Cancelled\<close>. The registry is untouched.
\<close>

definition prompted :: "bool \<Rightarrow> Slimshell \<Rightarrow> Slimshell \<Rightarrow> bool" where
  "prompted cancel s s' \<longleftrightarrow>
     (\<exists>qs. out s' = out s @ map (\<lambda>q. Question (Yellow q)) qs
              @ (if cancel then [ConsoleLog (Plain ''Cancelled'')] else []))
   \<and> (\<exists>answers. stdin s = map Line answers @ (if cancel then [Escape] else []) @ stdin s')
   \<and> cds s' = cds s \<and> cds_proto s' = cds_proto s \<and> heap s' = heap s
   \<and> config s' = config s \<and> isTTY s' = isTTY s
   \<and> input s' = (if cancel then Some (interfaces s) else input s)
   \<and> interfaces s' = (if cancel then Suc (interfaces s) else interfaces s)
   \<and> closed s' = closed s @ (if cancel then (case input s of None \<Rightarrow> [] | Some i \<Rightarrow> [i]) else [])"

text \<open>
  The script with more key events to come: what the user types after the script of \<open>s\<close>.
\<close>

definition typing :: "key list \<Rightarrow> Slimshell \<Rightarrow> Slimshell" where
  "typing ks s = s\<lparr>stdin := stdin s @ ks\<rparr>"

text \<open>
  References never dangle in JavaScript: every address held by the registry is an
  address of the store.
\<close>

definition allocated :: "Slimshell \<Rightarrow> bool" where
  "allocated s \<longleftrightarrow>
     (\<forall>v ds. cds s v = Some ds \<longrightarrow> (\<forall>a \<in> set ds. a < length (heap s)))
   \<and> (\<forall>l. cds_proto s = Some l \<longrightarrow> (\<forall>a \<in> set l. a < length (heap s)))"

text \<open>
  A program of builder calls after construction. A stage object exists only as the
  result of \<^verbatim>\<open>on\<close> (the stage classes are private to the module), so a stage call is
  made on the definition of some earlier \<^verbatim>\<open>on\<close>: \<open>With k n\<close> is \<^verbatim>\<open>with(n)\<close> on the stage of
  the \<open>k\<close>-th call of \<^verbatim>\<open>on\<close> that returned, whose address is \<open>base + k\<close> when the store
  held \<open>base\<close> definitions after construction. A call of \<^verbatim>\<open>on\<close> that throws leaves the
  shell as it was, whether the host program catches the error or ends there.
\<close>

datatype stage_call =
  On string
  | With nat string
  | Call nat Command
  | Requiring nat "IArgumentDefinition list"

fun stage_calls :: "nat \<Rightarrow> stage_call list \<Rightarrow> Slimshell \<Rightarrow> Slimshell" where
  "stage_calls base [] s = s"
| "stage_calls base (On v # cs) s =
     stage_calls base cs (case on v s of Inl e \<Rightarrow> s | Inr (cd, s') \<Rightarrow> s')"
| "stage_calls base (With k n # cs) s = stage_calls base cs (snd (ss_with (base + k) n s))"
| "stage_calls base (Call k c # cs) s = stage_calls base cs (snd (call (base + k) c s))"
| "stage_calls base (Requiring k reqs # cs) s =
     stage_calls base cs (snd (requiring (base + k) reqs s))"

text \<open>
  The exit definition of a verb, and the invariant that every exit verb of \<open>E\<close> has its
  exit definition, allocated at construction (below \<open>base\<close>), at the head of its list.
\<close>

definition exit_spec :: "string \<Rightarrow> ICommandDefinition" where
  "exit_spec ec = \<lparr>verb = ec, noun = None, command = exit, requiredArguments = None\<rparr>"

definition exits_first :: "nat \<Rightarrow> string set \<Rightarrow> Slimshell \<Rightarrow> bool" where
  "exits_first base E s \<longleftrightarrow>
     base \<le> length (heap s) \<and>
     (\<forall>ec \<in> E. \<exists>a ds. cds_get s ec = Defs (a # ds) \<and> a < base \<and> heap s ! a = exit_spec ec)"

section \<open>A small shell, used as the concrete input of the examples\<close>

text \<open>
  A stand-in for \<^verbatim>\<open>minimist\<close> in the examples only (the theorems hold for every
  tokenizer): \<^verbatim>\<open>--key value\<close> is a flag with a string value, \<^verbatim>\<open>--key\<close> alone is a flag
  that is true, every other atom is a positional string. The examples use no other
  form (no single dash, no numeral), where \<^verbatim>\<open>minimist\<close> does more.
\<close>

fun tokenize :: "string list \<Rightarrow> parsed" where
  "tokenize [] = \<lparr>positional = [], flags = Map.empty\<rparr>"
| "tokenize [a] =
     (if take 2 a = ''--'' then \<lparr>positional = [], flags = [drop 2 a \<mapsto> VBool True]\<rparr>
      else \<lparr>positional = [VStr a], flags = Map.empty\<rparr>)"
| "tokenize (a # b # as) =
     (if take 2 a = ''--'' then
        (if take 2 b = ''--'' then
           (let p = tokenize (b # as) in p\<lparr>flags := (flags p)(drop 2 a \<mapsto> VBool True)\<rparr>)
         else
           (let p = tokenize as in p\<lparr>flags := (flags p)(drop 2 a \<mapsto> VStr b)\<rparr>))
      else (let p = tokenize (b # as) in p\<lparr>positional := VStr a # positional p\<rparr>))"

text \<open>
  \<^verbatim>\<open>new Slimshell({exitCommands: ["quit"]})\<close> on a terminal is \<open>constructed\<close>; then
  \<^verbatim>\<open>.on("login").call(login).requiring([token])\<close> gives \<open>example_state\<close>, and then
  \<^verbatim>\<open>.on("pay").call(login).requiring([token, pin])\<close> gives \<open>pay_state\<close>. On the
  constructed shell again, \<open>greet_state\<close> is the result of \<^verbatim>\<open>.on("greet").with("bob")\<close>,
  \<^verbatim>\<open>.on("greet")\<close>, \<^verbatim>\<open>.on("greet").with("bob")\<close> and \<^verbatim>\<open>.on("quit").call(login)\<close>; and
  \<open>status_state\<close> is the example shell with one more definition, the placeholder that
  \<^verbatim>\<open>.on("status")\<close> makes.
\<close>

definition example_config :: ISlimshellConfig where
  "example_config = \<lparr>title = None, version = None, exitCommands = Some [''quit'']\<rparr>"

definition token :: IArgumentDefinition where
  "token = \<lparr>description = ''Token'', name = ''token'', alternatives = Some [''t'']\<rparr>"

definition pin :: IArgumentDefinition where
  "pin = \<lparr>description = ''Pin'', name = ''pin'', alternatives = Some []\<rparr>"

definition login :: Command where
  "login args =
     \<lparr>success = True,
      messages = Some (case args ''token'' of Some (VStr v) \<Rightarrow> [''token '' @ v] | _ \<Rightarrow> [])\<rparr>"

definition constructed :: "key list \<Rightarrow> Slimshell" where
  "constructed script =
     \<lparr>config = \<lparr>title = Some ''Slimshell'', version = Some ''1.0.0'',
                 exitCommands = Some [''quit'', ''exit'']\<rparr>,
      cds = [''quit'' \<mapsto> [0], ''exit'' \<mapsto> [1]], cds_proto = None,
      heap = [\<lparr>verb = ''quit'', noun = None, command = exit, requiredArguments = None\<rparr>,
              \<lparr>verb = ''exit'', noun = None, command = exit, requiredArguments = None\<rparr>],
      input = Some 0, interfaces = 1, closed = [], keypressEvents = True, keypress = 0,
      isTTY = True, rawMode = False, stdin = script, out = []\<rparr>"

definition example_state :: "key list \<Rightarrow> Slimshell" where
  "example_state script =
     (case on ''login'' (constructed script) of
        Inl e \<Rightarrow> constructed script
      | Inr (w, s1) \<Rightarrow> (case call w login s1 of (r, s2) \<Rightarrow> snd (requiring r [token] s2)))"

definition pay_state :: "key list \<Rightarrow> Slimshell" where
  "pay_state script =
     (case on ''pay'' (example_state script) of
        Inl e \<Rightarrow> example_state script
      | Inr (w, s1) \<Rightarrow>
          (case call w login s1 of (r, s2) \<Rightarrow> snd (requiring r [token, pin] s2)))"

definition greet_state :: Slimshell where
  "greet_state =
     stage_calls 2 [On ''greet'', With 0 ''bob'', On ''greet'', On ''greet'', With 2 ''bob'',
                    On ''quit'', Call 3 login] (constructed [])"


section \<open>Helper lemmas\<close>

subsection \<open>The effect of the primitive operations\<close>

lemma getArgument_eq:
  "getArgument req s =
     (case stdin s of
        [] \<Rightarrow> Awaits
      | Escape # ks \<Rightarrow> Throws Rejected
      | Line v # ks \<Rightarrow> Returns (trim v),
      s\<lparr>rawMode := (isTTY s \<or> rawMode s), keypress := Suc (keypress s),
        out := out s @ [Question (Yellow (''  $'' @ description req @ '': ''))],
        stdin := tl (stdin s)\<rparr>)"
  by (simp add: getArgument_def Let_def split: list.splits key.splits)

lemma initInput_eq:
  "initInput s =
     s\<lparr>closed := closed s @ (case input s of None \<Rightarrow> [] | Some i \<Rightarrow> [i]),
       input := Some (interfaces s), interfaces := Suc (interfaces s),
       keypressEvents := True\<rparr>"
  by (simp add: initInput_def Let_def split: option.splits)

lemma getCommand_eq:
  "getCommand s =
     (case next_line (isTTY s) (stdin s) of None \<Rightarrow> Awaits | Some (cmd, ks) \<Rightarrow> Returns cmd,
      s\<lparr>out := out s @ [Question (Plain ''> '')],
        stdin := (case next_line (isTTY s) (stdin s) of None \<Rightarrow> [] | Some (cmd, ks) \<Rightarrow> ks)\<rparr>)"
  by (simp add: getCommand_def Let_def split: option.splits)

lemma run_unfold:
  "iteration minimist s = (Returns running, s') \<Longrightarrow>
   run minimist s = (if running then run minimist s' else (Returns True, s'))"
  by (subst run.simps) simp

lemma promptLoop_escape:
  "\<not> bag_truthy args (name req) \<Longrightarrow> stdin s = Escape # ks \<Longrightarrow>
   fst (promptLoop req args s) = Returns Cancelled"
  by (simp add: promptLoop.simps getArgument_eq)

subsection \<open>Listeners and prompts\<close>

lemma prompts_simps [simp]:
  "prompts [] = 0"
  "prompts (es @ fs) = prompts es + prompts fs"
  "prompts (Question (Yellow q) # es) = Suc (prompts es)"
  "prompts (Question (Plain q) # es) = prompts es"
  "prompts (ConsoleLog x # es) = prompts es"
  "prompts (Invoke cd args # es) = prompts es"
  by (simp_all add: prompts_def)

lemma prompts_map_ConsoleLog [simp]: "prompts (map (\<lambda>m. ConsoleLog (f m)) ms) = 0"
  by (induction ms) simp_all

lemma getArgument_listeners:
  "getArgument req s = (r, s') \<Longrightarrow>
   keypress s' + prompts (out s) = keypress s + prompts (out s')"
  by (auto simp: getArgument_eq)

lemma promptLoop_listeners:
  "promptLoop req args s = (r, s') \<Longrightarrow>
   keypress s' + prompts (out s) = keypress s + prompts (out s')"
proof (induction rule: promptLoop_cases)
  case (cancelled args s e s1)
  then show ?case
    by (auto simp: getArgument_eq initInput_eq console_log_def)
next
  case (answered args s v s1 r s')
  from getArgument_listeners [OF answered(2)] answered(4) show ?case by simp
qed (auto simp: getArgument_eq)

text \<open>
  An induction rule for the loop over the required arguments, by its five exits and
  steps.
\<close>

lemma resolveArguments_cases [consumes 1, case_names finished skip throws stop resolved]:
  assumes run: "resolveArguments reqs args s = (r, s')"
    and d: "\<And>args s. P [] args s (Returns (Resolved args)) s"
    and k: "\<And>req reqs args s r s'. bag_truthy args (name req) \<Longrightarrow>
        resolveArguments reqs args s = (r, s') \<Longrightarrow> P reqs args s r s' \<Longrightarrow>
        P (req # reqs) args s r s'"
    and t: "\<And>req reqs args s. \<not> bag_truthy args (name req) \<Longrightarrow> alternatives req = None \<Longrightarrow>
        P (req # reqs) args s (Throws TypeError) s"
    and p: "\<And>req reqs args s alts r s'. \<not> bag_truthy args (name req) \<Longrightarrow>
        alternatives req = Some alts \<Longrightarrow>
        promptLoop req (store_alternative args (name req) alts) s
          = (r, s') \<Longrightarrow>
        (\<And>a. r \<noteq> Returns (Resolved a)) \<Longrightarrow> P (req # reqs) args s r s'"
    and n: "\<And>req reqs args s alts args1 s1 r s'. \<not> bag_truthy args (name req) \<Longrightarrow>
        alternatives req = Some alts \<Longrightarrow>
        promptLoop req (store_alternative args (name req) alts) s
          = (Returns (Resolved args1), s1) \<Longrightarrow>
        resolveArguments reqs args1 s1 = (r, s') \<Longrightarrow> P reqs args1 s1 r s' \<Longrightarrow>
        P (req # reqs) args s r s'"
  shows "P reqs args s r s'"
  using run
proof (induction reqs arbitrary: args s)
  case Nil
  with d [of args s] show ?case by simp
next
  case (Cons req reqs)
  show ?case
  proof (cases "bag_truthy args (name req)")
    case True
    with Cons.prems have "resolveArguments reqs args s = (r, s')" by simp
    from k [of args req reqs s r s', OF True this Cons.IH [OF this]] show ?thesis .
  next
    case False
    show ?thesis
    proof (cases "alternatives req")
      case None
      with False Cons.prems t [of args req reqs s, OF False None] show ?thesis by simp
    next
      case (Some alts)
      let ?args = "store_alternative args (name req) alts"
      obtain q s1 where q: "promptLoop req ?args s = (q, s1)"
        by (cases "promptLoop req ?args s")
      show ?thesis
      proof (cases "\<exists>args1. q = Returns (Resolved args1)")
        case True
        then obtain args1 where q1: "q = Returns (Resolved args1)" ..
        with False Some q Cons.prems have rest: "resolveArguments reqs args1 s1 = (r, s')"
          by simp
        from n [of args req alts s args1 s1 reqs r s', OF False Some q [unfolded q1] rest
            Cons.IH [OF rest]]
        show ?thesis .
      next
        case no: False
        with False Some q Cons.prems have "r = q" and "s' = s1"
          by (auto split: outcome.splits resolution.splits)
        with p [of args req alts s q s1 reqs, OF False Some q] no show ?thesis by simp
      qed
    qed
  qed
qed

lemma resolveArguments_listeners:
  "resolveArguments reqs args s = (r, s') \<Longrightarrow>
   keypress s' + prompts (out s) = keypress s + prompts (out s')"
proof (induction reqs arbitrary: args s)
  case Nil
  then show ?case by simp
next
  case (Cons req reqs)
  show ?case
  proof (cases "bag_truthy args (name req)")
    case True
    with Cons show ?thesis by simp
  next
    case False
    show ?thesis
    proof (cases "alternatives req")
      case None
      with False Cons.prems show ?thesis by simp
    next
      case (Some alts)
      let ?args = "store_alternative args (name req) alts"
      obtain p s1 where p: "promptLoop req ?args s = (p, s1)"
        by (cases "promptLoop req ?args s")
      note eq = promptLoop_listeners [OF p]
      show ?thesis
      proof (cases "\<exists>args1. p = Returns (Resolved args1)")
        case True
        then obtain args1 where "p = Returns (Resolved args1)" ..
        with False Some p Cons.prems have "resolveArguments reqs args1 s1 = (r, s')" by simp
        from Cons.IH [OF this] eq show ?thesis by simp
      next
        case False
        with \<open>\<not> bag_truthy args (name req)\<close> Some p Cons.prems eq show ?thesis
          by (auto split: outcome.splits resolution.splits)
      qed
    qed
  qed
qed

lemma runCommand_listeners:
  "runCommand minimist cmd s = (r, s') \<Longrightarrow>
   keypress s' + prompts (out s) = keypress s + prompts (out s')"
  by (auto simp: runCommand_def resolve_def invoke_eq console_log_def
      split: prod.splits option.splits outcome.splits resolution.splits sum.splits
      dest!: resolveArguments_listeners)

lemma iteration_listeners:
  "iteration minimist s = (r, s') \<Longrightarrow>
   keypress s' + prompts (out s) = keypress s + prompts (out s')"
  by (auto simp: iteration_def getCommand_eq split: option.splits dest!: runCommand_listeners)

lemma run_listeners:
  "run minimist s = (r, s') \<Longrightarrow>
   keypress s' + prompts (out s) = keypress s + prompts (out s')"
proof (induction minimist s arbitrary: r s' rule: run.induct)
  case (1 minimist s)
  obtain i s1 where i: "iteration minimist s = (i, s1)" by (cases "iteration minimist s")
  note eq = iteration_listeners [OF i]
  show ?case
  proof (cases "i = Returns True")
    case True
    with i "1.prems" have "run minimist s1 = (r, s')" by (subst (asm) run.simps) simp
    from "1.IH" [OF i [symmetric] True TrueI this] eq show ?thesis by simp
  next
    case False
    with i "1.prems" eq show ?thesis
      by (subst (asm) run.simps) (auto split: outcome.splits if_splits)
  qed
qed

subsection \<open>The effect of argument resolution and of a dispatch\<close>

lemma prompted_refl: "prompted False s s"
  unfolding prompted_def
  by (auto intro: exI [of _ "[]"])

lemma prompted_trans:
  assumes a: "prompted False s s1" and b: "prompted c s1 s'"
  shows "prompted c s s'"
proof -
  from a obtain qs answers where
    1: "out s1 = out s @ map (\<lambda>q. Question (Yellow q)) qs" "stdin s = map Line answers @ stdin s1"
    by (auto simp: prompted_def)
  from b obtain qs' answers' where
    2: "out s' = out s1 @ map (\<lambda>q. Question (Yellow q)) qs'
          @ (if c then [ConsoleLog (Plain ''Cancelled'')] else [])"
       "stdin s1 = map Line answers' @ (if c then [Escape] else []) @ stdin s'"
    by (auto simp: prompted_def)
  from 1 2 have "out s' = out s @ map (\<lambda>q. Question (Yellow q)) (qs @ qs')
          @ (if c then [ConsoleLog (Plain ''Cancelled'')] else [])"
    and "stdin s = map Line (answers @ answers') @ (if c then [Escape] else []) @ stdin s'"
    by simp_all
  then have "\<exists>qs. out s' = out s @ map (\<lambda>q. Question (Yellow q)) qs
          @ (if c then [ConsoleLog (Plain ''Cancelled'')] else [])"
    and "\<exists>answers. stdin s = map Line answers @ (if c then [Escape] else []) @ stdin s'"
    by blast+
  with a b show ?thesis
    unfolding prompted_def by simp
qed

lemma prompted_answer:
  assumes "getArgument req s = (Returns v, s1)"
  shows "prompted False s s1"
proof -
  from assms obtain l where l: "stdin s = Line l # stdin s1"
    by (auto simp: getArgument_eq split: list.splits key.splits)
  from assms have "out s1 = out s @ map (\<lambda>q. Question (Yellow q)) [''  $'' @ description req @ '': '']"
    by (auto simp: getArgument_eq)
  moreover from l have "stdin s = map Line [l] @ stdin s1" by simp
  ultimately have "\<exists>qs. out s1 = out s @ map (\<lambda>q. Question (Yellow q)) qs"
    and "\<exists>answers. stdin s = map Line answers @ stdin s1"
    by blast+
  moreover from assms have "cds s1 = cds s" "cds_proto s1 = cds_proto s" "heap s1 = heap s" "config s1 = config s"
    "isTTY s1 = isTTY s"
    "input s1 = input s" "interfaces s1 = interfaces s" "closed s1 = closed s"
    by (auto simp: getArgument_eq)
  ultimately show ?thesis unfolding prompted_def by simp
qed

lemma prompted_await:
  assumes "getArgument req s = (Awaits, s1)"
  shows "prompted False s s1"
proof -
  from assms have l: "stdin s = []" "stdin s1 = []"
    by (auto simp: getArgument_eq split: list.splits key.splits)
  from assms have "out s1 = out s @ map (\<lambda>q. Question (Yellow q)) [''  $'' @ description req @ '': '']"
    by (auto simp: getArgument_eq)
  moreover from l have "stdin s = map Line [] @ stdin s1" by simp
  ultimately have "\<exists>qs. out s1 = out s @ map (\<lambda>q. Question (Yellow q)) qs"
    and "\<exists>answers. stdin s = map Line answers @ stdin s1"
    by blast+
  moreover from assms have "cds s1 = cds s" "cds_proto s1 = cds_proto s" "heap s1 = heap s" "config s1 = config s"
    "isTTY s1 = isTTY s"
    "input s1 = input s" "interfaces s1 = interfaces s" "closed s1 = closed s"
    by (auto simp: getArgument_eq)
  ultimately show ?thesis unfolding prompted_def by simp
qed

lemma prompted_cancel:
  assumes "getArgument req s = (Throws e, s1)"
  shows "prompted True s (console_log (Plain ''Cancelled'') (initInput s1))"
proof -
  let ?s' = "console_log (Plain ''Cancelled'') (initInput s1)"
  from assms have l: "stdin s = Escape # stdin ?s'"
    by (auto simp: getArgument_eq initInput_eq console_log_def split: list.splits key.splits)
  from assms have "out ?s' = out s @ map (\<lambda>q. Question (Yellow q)) [''  $'' @ description req @ '': '']
      @ [ConsoleLog (Plain ''Cancelled'')]"
    by (auto simp: getArgument_eq initInput_eq console_log_def)
  moreover from l have "stdin s = map Line [] @ [Escape] @ stdin ?s'" by simp
  ultimately have "\<exists>qs. out ?s' = out s @ map (\<lambda>q. Question (Yellow q)) qs
      @ [ConsoleLog (Plain ''Cancelled'')]"
    and "\<exists>answers. stdin s = map Line answers @ [Escape] @ stdin ?s'"
    by blast+
  moreover from assms have "cds ?s' = cds s" "cds_proto ?s' = cds_proto s" "heap ?s' = heap s" "config ?s' = config s"
    "isTTY ?s' = isTTY s"
    "input ?s' = Some (interfaces s)" "interfaces ?s' = Suc (interfaces s)"
    "closed ?s' = closed s @ (case input s of None \<Rightarrow> [] | Some i \<Rightarrow> [i])"
    by (auto simp: getArgument_eq initInput_eq console_log_def)
  ultimately show ?thesis unfolding prompted_def by simp
qed

lemma promptLoop_prompted:
  "promptLoop req args s = (r, s') \<Longrightarrow> prompted (r = Returns Cancelled) s s'"
proof (induction rule: promptLoop_cases)
  case (truthy args s)
  show ?case by (simp add: prompted_refl)
next
  case (awaits args s s1)
  then show ?case by (simp add: prompted_await)
next
  case (cancelled args s e s1)
  then show ?case by (simp add: prompted_cancel)
next
  case (answered args s v s1 r s')
  from prompted_trans [OF prompted_answer [OF answered(2)] answered(4)] show ?case .
qed

lemma resolveArguments_prompted:
  "resolveArguments reqs args s = (r, s') \<Longrightarrow> prompted (r = Returns Cancelled) s s'"
proof (induction rule: resolveArguments_cases)
  case (finished args s)
  show ?case by (simp add: prompted_refl)
next
  case (skip req reqs args s r s')
  then show ?case by simp
next
  case (throws req reqs args s)
  show ?case by (simp add: prompted_refl)
next
  case (stop req reqs args s alts r s')
  from promptLoop_prompted [OF stop(3)] show ?case .
next
  case (resolved req reqs args s alts args1 s1 r s')
  from promptLoop_prompted [OF resolved(3)] have "prompted False s s1" by simp
  from prompted_trans [OF this resolved(5)] show ?case .
qed

lemma resolve_prompted:
  "resolve cd args s = (r, s') \<Longrightarrow> prompted (r = Returns Cancelled) s s'"
  by (auto simp: resolve_def prompted_refl split: option.splits dest: resolveArguments_prompted)

lemma invocations_append: "invocations (es @ fs) = invocations es @ invocations fs"
  by (induction es rule: invocations.induct) simp_all

lemma invocations_questions: "invocations (map (\<lambda>q. Question (f q)) qs) = []"
  by (induction qs) simp_all

lemma runCommand_throws:
  "parseCommand minimist cmd = (v, n, args) \<Longrightarrow> lookup s v n = Inl e \<Longrightarrow>
   runCommand minimist cmd s = (Throws e, s)"
  by (simp add: runCommand_def)

lemma runCommand_unmatched:
  "parseCommand minimist cmd = (v, n, args) \<Longrightarrow> lookup s v n = Inr None \<Longrightarrow>
   runCommand minimist cmd s = (Returns True, console_log (Cyan ''  wut?'') s)"
  by (simp add: runCommand_def)

lemma runCommand_cancelled:
  "parseCommand minimist cmd = (v, n, args) \<Longrightarrow> lookup s v n = Inr (Some cd) \<Longrightarrow>
   resolve (heap s ! cd) args s = (Returns Cancelled, s') \<Longrightarrow>
   runCommand minimist cmd s = (Returns True, s')"
  by (simp add: runCommand_def)

lemma runCommand_resolved:
  assumes "parseCommand minimist cmd = (v, n, args)" and "lookup s v n = Inr (Some cd)"
    and r: "resolve (heap s ! cd) args s = (Returns (Resolved args'), s')"
  shows "runCommand minimist cmd s =
     (Returns (success (command (heap s ! cd) args')),
      s'\<lparr>out := out s' @ Invoke cd args' #
         map (\<lambda>m. ConsoleLog (Cyan (''  '' @ m)))
           (case messages (command (heap s ! cd) args') of None \<Rightarrow> [] | Some ms \<Rightarrow> ms)\<rparr>)"
proof -
  from resolve_prompted [OF r] have "heap s' = heap s" by (simp add: prompted_def)
  with assms show ?thesis
    by (simp add: runCommand_def invoke_eq split: option.splits)
qed

lemma runCommand_registry:
  assumes "runCommand minimist cmd s = (r, s')"
  shows "cds s' = cds s \<and> cds_proto s' = cds_proto s \<and> heap s' = heap s"
proof -
  obtain v n args where p: "parseCommand minimist cmd = (v, n, args)"
    by (cases "parseCommand minimist cmd")
  show ?thesis
  proof (cases "lookup s v n")
    case (Inl e)
    with p assms show ?thesis by (simp add: runCommand_throws)
  next
    case (Inr found)
    show ?thesis
    proof (cases found)
      case None
      with Inr p assms show ?thesis by (auto simp: runCommand_def console_log_def)
    next
      case (Some cd)
      obtain q s1 where q: "resolve (heap s ! cd) args s = (q, s1)"
        by (cases "resolve (heap s ! cd) args s")
      from resolve_prompted [OF q]
      have "cds s1 = cds s \<and> cds_proto s1 = cds_proto s \<and> heap s1 = heap s"
        by (simp add: prompted_def)
      with p Inr Some q assms show ?thesis
        by (auto simp: runCommand_def invoke_eq split: outcome.splits resolution.splits)
    qed
  qed
qed

lemma iteration_registry:
  "iteration minimist s = (r, s') \<Longrightarrow> cds s' = cds s \<and> cds_proto s' = cds_proto s \<and> heap s' = heap s"
  by (auto simp: iteration_def getCommand_eq split: option.splits dest!: runCommand_registry)

lemma run_registry:
  "run minimist s = (r, s') \<Longrightarrow> cds s' = cds s \<and> cds_proto s' = cds_proto s \<and> heap s' = heap s"
proof (induction minimist s arbitrary: r s' rule: run.induct)
  case (1 minimist s)
  obtain i s1 where i: "iteration minimist s = (i, s1)" by (cases "iteration minimist s")
  note eq = iteration_registry [OF i]
  show ?case
  proof (cases "i = Returns True")
    case True
    with i "1.prems" have "run minimist s1 = (r, s')" by (subst (asm) run.simps) simp
    from "1.IH" [OF i [symmetric] True TrueI this] eq show ?thesis by simp
  next
    case False
    with i "1.prems" eq show ?thesis
      by (subst (asm) run.simps) (auto split: outcome.splits if_splits)
  qed
qed

subsection \<open>Values that are already truthy\<close>

lemma truthy_bag_truthy: "truthy (args k) \<Longrightarrow> bag_truthy args k"
  by (cases "args k") (simp_all add: bag_truthy_def)

lemma store_alternative_other: "k \<noteq> n \<Longrightarrow> store_alternative args n alts k = args k"
  by (simp add: store_alternative_def)

lemma promptLoop_other_keys:
  "promptLoop req args s = (r, s') \<Longrightarrow> k \<noteq> name req \<Longrightarrow>
   r = Returns (Resolved args') \<Longrightarrow> args' k = args k"
  by (induction rule: promptLoop_cases) auto

lemma promptLoop_truthy_kept:
  assumes "promptLoop req args s = (Returns (Resolved args'), s')" and "truthy (args k)"
  shows "args' k = args k"
proof (cases "k = name req")
  case True
  with assms show ?thesis by (simp add: promptLoop_truthy truthy_bag_truthy)
next
  case False
  with assms(1) show ?thesis by (rule promptLoop_other_keys) simp
qed

lemma resolveArguments_truthy_kept:
  "resolveArguments reqs args s = (Returns (Resolved args'), s') \<Longrightarrow> truthy (args k) \<Longrightarrow>
   args' k = args k"
proof (induction reqs arbitrary: args s)
  case Nil
  then show ?case by simp
next
  case (Cons req reqs)
  show ?case
  proof (cases "bag_truthy args (name req)")
    case True
    with Cons show ?thesis by simp
  next
    case False
    with truthy_bag_truthy [of args k, OF Cons.prems(2)] have ne: "k \<noteq> name req" by auto
    from False Cons.prems(1) obtain alts where alts: "alternatives req = Some alts"
      by (cases "alternatives req") auto
    let ?args = "store_alternative args (name req) alts"
    from False alts Cons.prems(1) obtain args1 s1 where
      p: "promptLoop req ?args s = (Returns (Resolved args1), s1)" and
      r: "resolveArguments reqs args1 s1 = (Returns (Resolved args'), s')"
      by (auto split: prod.splits outcome.splits resolution.splits)
    from promptLoop_other_keys [OF p ne refl] ne have "args1 k = args k"
      by (simp add: store_alternative_other)
    with Cons.IH [OF r] Cons.prems(2) show ?thesis by simp
  qed
qed

lemma resolveArguments_skip:
  "truthy (args (name req)) \<Longrightarrow>
   resolveArguments (pre @ req # post) args s = resolveArguments (pre @ post) args s"
proof (induction pre arbitrary: args s)
  case Nil
  then show ?case by (simp add: truthy_bag_truthy)
next
  case (Cons p pre)
  show ?case
  proof (cases "bag_truthy args (name p)")
    case True
    with Cons show ?thesis by simp
  next
    case False
    with truthy_bag_truthy [of args "name req", OF Cons.prems] have ne: "name req \<noteq> name p" by auto
    show ?thesis
    proof (cases "alternatives p")
      case None
      with False show ?thesis by simp
    next
      case (Some alts)
      let ?args = "store_alternative args (name p) alts"
      obtain r s1 where p: "promptLoop p ?args s = (r, s1)" by (cases "promptLoop p ?args s")
      have "resolveArguments (pre @ req # post) args1 s1 = resolveArguments (pre @ post) args1 s1"
        if "r = Returns (Resolved args1)" for args1
      proof -
        from promptLoop_other_keys [OF p ne that] ne have "args1 (name req) = args (name req)"
          by (simp add: store_alternative_other)
        with Cons.prems have "truthy (args1 (name req))" by simp
        then show ?thesis by (rule Cons.IH)
      qed
      with False Some p show ?thesis
        by (simp split: outcome.splits resolution.splits)
    qed
  qed
qed

text \<open>What line 149 stores, and what it does without \<^verbatim>\<open>alternatives\<close>.\<close>

lemma alternative_name_stored:
  assumes "\<not> bag_truthy args (name req)" and "alternatives req = Some alts"
    and "find (bag_defined args) alts = Some alt" and "alt \<noteq> []"
  shows "resolveArguments (req # reqs) args s
         = resolveArguments reqs (args(name req \<mapsto> VStr alt)) s"
  using assms by (simp add: store_alternative_def promptLoop_truthy bag_truthy_def)

lemma absent_alternatives_throw:
  "\<not> bag_truthy args (name req) \<Longrightarrow> alternatives req = None \<Longrightarrow>
   resolveArguments (req # reqs) args s = (Throws TypeError, s)"
  by simp

subsection \<open>An escape key that arrives at a pending prompt\<close>

text \<open>
  What was typed later does not change what a resolution did before it needed it; and
  where a resolution waits at a prompt for a key, the escape key typed next cancels it.
\<close>

lemma typing_simps [simp]:
  "stdin (typing ks s) = stdin s @ ks" "out (typing ks s) = out s"
  "isTTY (typing ks s) = isTTY s" "keypress (typing ks s) = keypress s"
  "rawMode (typing ks s) = rawMode s" "cds (typing ks s) = cds s"
  "cds_proto (typing ks s) = cds_proto s" "heap (typing ks s) = heap s"
  "input (typing ks s) = input s" "interfaces (typing ks s) = interfaces s"
  "closed (typing ks s) = closed s"
  by (simp_all add: typing_def)

lemma getArgument_typing:
  "getArgument req s = (r, t) \<Longrightarrow> r \<noteq> Awaits \<Longrightarrow>
   getArgument req (typing ks s) = (r, typing ks t)"
  by (auto simp: getArgument_eq typing_def split: list.splits key.splits)

lemma getArgument_escape_arrives:
  "getArgument req s = (Awaits, t) \<Longrightarrow>
   getArgument req (typing (Escape # ks) s) = (Throws Rejected, t\<lparr>stdin := ks\<rparr>)"
  by (auto simp: getArgument_eq typing_def split: list.splits key.splits)

lemma cancel_typing:
  "console_log x (initInput (typing ks s)) = typing ks (console_log x (initInput s))"
  by (simp add: console_log_def initInput_eq typing_def)

lemma promptLoop_typing:
  "promptLoop req args s = (r, t) \<Longrightarrow> r \<noteq> Awaits \<Longrightarrow>
   promptLoop req args (typing ks s) = (r, typing ks t)"
proof (induction rule: promptLoop_cases)
  case (truthy args s)
  then show ?case by (simp add: promptLoop_truthy)
next
  case (awaits args s s1)
  then show ?case by simp
next
  case (cancelled args s e s1)
  from getArgument_typing [OF cancelled(2), of ks] cancelled(1) show ?case
    by (simp add: promptLoop_Throws cancel_typing)
next
  case (answered args s v s1 r s')
  have "promptLoop req args (typing ks s)
        = promptLoop req (args(name req \<mapsto> VStr v)) (typing ks s1)"
    by (rule promptLoop_Returns [OF answered(1) getArgument_typing [OF answered(2)]]) simp
  also from answered(4) [OF answered(5)] have "\<dots> = (r, typing ks s')" .
  finally show ?case .
qed

lemma promptLoop_escape_arrives:
  "promptLoop req args s = (r, t) \<Longrightarrow> r = Awaits \<Longrightarrow>
   promptLoop req args (typing (Escape # ks) s)
   = (Returns Cancelled, console_log (Plain ''Cancelled'') (initInput (t\<lparr>stdin := ks\<rparr>)))"
proof (induction rule: promptLoop_cases)
  case (truthy args s)
  then show ?case by simp
next
  case (awaits args s s1)
  from getArgument_escape_arrives [OF awaits(2), of ks] awaits(1) show ?case
    by (simp add: promptLoop_Throws)
next
  case (cancelled args s e s1)
  then show ?case by simp
next
  case (answered args s v s1 r s')
  have "promptLoop req args (typing (Escape # ks) s)
        = promptLoop req (args(name req \<mapsto> VStr v)) (typing (Escape # ks) s1)"
    by (rule promptLoop_Returns [OF answered(1) getArgument_typing [OF answered(2)]]) simp
  also from answered(4) [OF answered(5)]
  have "\<dots> = (Returns Cancelled, console_log (Plain ''Cancelled'') (initInput (s'\<lparr>stdin := ks\<rparr>)))" .
  finally show ?case .
qed

lemma resolveArguments_typing:
  "resolveArguments reqs args s = (r, t) \<Longrightarrow> r \<noteq> Awaits \<Longrightarrow>
   resolveArguments reqs args (typing ks s) = (r, typing ks t)"
proof (induction rule: resolveArguments_cases)
  case (finished args s)
  show ?case by simp
next
  case (skip req reqs args s r s')
  then show ?case by simp
next
  case (throws req reqs args s)
  then show ?case by simp
next
  case (stop req reqs args s alts r s')
  from promptLoop_typing [OF stop(3) stop(5), of ks] stop(1) stop(2) stop(4) show ?case
    by (auto split: outcome.splits resolution.splits)
next
  case (resolved req reqs args s alts args1 s1 r s')
  from promptLoop_typing [OF resolved(3), of ks] resolved(1) resolved(2) resolved(5) resolved(6)
  show ?case by simp
qed

lemma resolveArguments_escape_arrives:
  "resolveArguments reqs args s = (r, t) \<Longrightarrow> r = Awaits \<Longrightarrow>
   resolveArguments reqs args (typing (Escape # ks) s)
   = (Returns Cancelled, console_log (Plain ''Cancelled'') (initInput (t\<lparr>stdin := ks\<rparr>)))"
proof (induction rule: resolveArguments_cases)
  case (finished args s)
  then show ?case by simp
next
  case (skip req reqs args s r s')
  then show ?case by simp
next
  case (throws req reqs args s)
  then show ?case by simp
next
  case (stop req reqs args s alts r s')
  from promptLoop_escape_arrives [OF stop(3) stop(5), of ks] stop(1) stop(2) show ?case
    by simp
next
  case (resolved req reqs args s alts args1 s1 r s')
  from promptLoop_typing [OF resolved(3), of "Escape # ks"] resolved(1) resolved(2)
    resolved(5) resolved(6)
  show ?case by simp
qed

lemma resolve_escape_arrives:
  "resolve cd args s = (Awaits, t) \<Longrightarrow>
   resolve cd args (typing (Escape # ks) s)
   = (Returns Cancelled, console_log (Plain ''Cancelled'') (initInput (t\<lparr>stdin := ks\<rparr>)))"
  by (auto simp: resolve_def split: option.splits dest: resolveArguments_escape_arrives)

lemma awaits_exhausted:
  assumes "resolve cd args s = (Awaits, t)"
  shows "stdin t = []"
proof -
  have p: "promptLoop req a u = (r, t) \<Longrightarrow> r = Awaits \<Longrightarrow> stdin t = []" for req a u r t
    by (induction rule: promptLoop_cases)
       (auto simp: getArgument_eq split: list.splits key.splits)
  have "resolveArguments reqs a u = (r, t) \<Longrightarrow> r = Awaits \<Longrightarrow> stdin t = []" for reqs a u r t
    by (induction rule: resolveArguments_cases) (auto dest: p)
  with assms show ?thesis by (auto simp: resolve_def split: option.splits)
qed

subsection \<open>The registry\<close>

lemma noun_eq_iff: "noun_eq d n \<longleftrightarrow> map_option VStr d = n"
  by (induction d n rule: noun_eq.induct) auto

lemma inherited_not_Defs: "inherited p k \<noteq> Defs l"
  by (simp add: inherited_def split: option.splits)

lemma cds_get_Defs:
  "cds_get s k = Defs l \<longleftrightarrow>
     cds s k = Some l \<or> (cds s k = None \<and> k = ''__proto__'' \<and> cds_proto s = Some l)"
  by (auto simp: cds_get_def inherited_not_Defs split: option.splits)

lemma cds_get_proto_truthy:
  "cds_get s ''__proto__'' \<noteq> Undefined" "cds_get s ''__proto__'' \<noteq> Other False"
  by (simp_all add: cds_get_def split: option.splits)

lemma cds_get_frame:
  "cds t = cds s \<Longrightarrow> cds_proto t = cds_proto s \<Longrightarrow> cds_get t k = cds_get s k"
  by (auto simp: cds_get_def split: option.splits)

lemma cds_get_heap [simp]: "cds_get (s\<lparr>heap := h\<rparr>) k = cds_get s k"
  by (rule cds_get_frame) simp_all

lemma cds_get_own: "cds s k = Some l \<Longrightarrow> cds_get s k = Defs l"
  by (simp add: cds_get_def)

lemma lookup_frame:
  "cds t = cds s \<Longrightarrow> cds_proto t = cds_proto s \<Longrightarrow> heap t = heap s \<Longrightarrow>
   lookup t v n = lookup s v n"
  by (auto simp: lookup_def cds_get_frame [of t s] split: slot.splits)

lemma lookup_Some_iff:
  "lookup s v n = Inr (Some a) \<longleftrightarrow>
     (\<exists>ds i. cds_get s v = Defs ds \<and> i < length ds \<and> ds ! i = a
        \<and> map_option VStr (noun (heap s ! a)) = n
        \<and> (\<forall>j<i. map_option VStr (noun (heap s ! (ds ! j))) \<noteq> n))"
  by (auto simp: lookup_def find_Some_iff noun_eq_iff split: slot.splits)




text \<open>What \<^verbatim>\<open>on\<close> does, by the value of \<^verbatim>\<open>this.cds[verb]\<close>.\<close>

lemma on_throws: "cds_get s v = Other True \<Longrightarrow> on v s = Inl TypeError"
  by (simp add: on_def Let_def)

lemma on_own:
  "cds s v = Some l \<Longrightarrow>
   on v s = Inr (length (heap s),
                 s\<lparr>heap := heap s @ [\<lparr>verb = v, noun = None, command = NoCommand,
                                        requiredArguments = None\<rparr>],
                   cds := (cds s)(v \<mapsto> l @ [length (heap s)])\<rparr>)"
  by (simp add: on_def Let_def cds_get_own cds_push_def)

lemma on_proto:
  "cds s ''__proto__'' = None \<Longrightarrow> cds_proto s = Some l \<Longrightarrow>
   on ''__proto__'' s
   = Inr (length (heap s),
          s\<lparr>heap := heap s @ [\<lparr>verb = ''__proto__'', noun = None, command = NoCommand,
                                 requiredArguments = None\<rparr>],
            cds_proto := Some (l @ [length (heap s)])\<rparr>)"
proof -
  assume a: "cds s ''__proto__'' = None" "cds_proto s = Some l"
  then have g: "cds_get s ''__proto__'' = Defs l" by (simp add: cds_get_def)
  with a show ?thesis by (simp add: on_def Let_def cds_push_def)
qed

lemma on_starts:
  assumes "cds_get s v = Undefined \<or> cds_get s v = Other False"
  shows "on v s = Inr (length (heap s),
                 s\<lparr>heap := heap s @ [\<lparr>verb = v, noun = None, command = NoCommand,
                                        requiredArguments = None\<rparr>],
                   cds := (cds s)(v \<mapsto> [length (heap s)])\<rparr>)"
proof -
  from assms cds_get_proto_truthy [of s] have v: "v \<noteq> ''__proto__''" by auto
  then have set: "cds_set v [] s = s\<lparr>cds := (cds s)(v \<mapsto> [])\<rparr>" by (simp add: cds_set_def)
  from assms show ?thesis
  proof
    assume "cds_get s v = Undefined"
    then show ?thesis by (simp add: on_def Let_def set cds_get_own cds_push_def)
  next
    assume "cds_get s v = Other False"
    then show ?thesis by (simp add: on_def Let_def set cds_get_own cds_push_def)
  qed
qed

lemma on_result_cases [consumes 1, case_names own proto starts]:
  assumes on: "on v s = Inr (cd, s')"
  obtains l where "cds s v = Some l" and "cd = length (heap s)"
      and "s' = s\<lparr>heap := heap s @ [\<lparr>verb = v, noun = None, command = NoCommand,
                                       requiredArguments = None\<rparr>],
                  cds := (cds s)(v \<mapsto> l @ [length (heap s)])\<rparr>"
  | l where "cds s v = None" and "v = ''__proto__''" and "cds_proto s = Some l"
      and "cd = length (heap s)"
      and "s' = s\<lparr>heap := heap s @ [\<lparr>verb = v, noun = None, command = NoCommand,
                                       requiredArguments = None\<rparr>],
                  cds_proto := Some (l @ [length (heap s)])\<rparr>"
  | "cds s v = None" and "v \<noteq> ''__proto__''"
      and "cds_get s v = Undefined \<or> cds_get s v = Other False"
      and "cd = length (heap s)"
      and "s' = s\<lparr>heap := heap s @ [\<lparr>verb = v, noun = None, command = NoCommand,
                                       requiredArguments = None\<rparr>],
                  cds := (cds s)(v \<mapsto> [length (heap s)])\<rparr>"
proof (cases "cds_get s v")
  case Undefined
  then have f: "cds_get s v = Undefined \<or> cds_get s v = Other False" by simp
  from Undefined cds_get_proto_truthy [of s] have v: "v \<noteq> ''__proto__''" by auto
  from Undefined have n: "cds s v = None" by (auto simp: cds_get_def split: option.splits)
  from trans [OF on [symmetric] on_starts [OF f]] have cd: "cd = length (heap s)"
    and s': "s' = s\<lparr>heap := heap s @ [\<lparr>verb = v, noun = None, command = NoCommand,
                                       requiredArguments = None\<rparr>],
                  cds := (cds s)(v \<mapsto> [length (heap s)])\<rparr>"
    by simp_all
  from n v f cd s' show ?thesis by (rule that(3))
next
  case (Defs l)
  then have "cds s v = Some l \<or> (cds s v = None \<and> v = ''__proto__'' \<and> cds_proto s = Some l)"
    by (simp add: cds_get_Defs)
  then show ?thesis
  proof
    assume own: "cds s v = Some l"
    from trans [OF on [symmetric] on_own [OF own]] have cd: "cd = length (heap s)"
      and s': "s' = s\<lparr>heap := heap s @ [\<lparr>verb = v, noun = None, command = NoCommand,
                                       requiredArguments = None\<rparr>],
                  cds := (cds s)(v \<mapsto> l @ [length (heap s)])\<rparr>"
      by simp_all
    from own cd s' show ?thesis by (rule that(1))
  next
    assume pr: "cds s v = None \<and> v = ''__proto__'' \<and> cds_proto s = Some l"
    then have n: "cds s v = None" and v: "v = ''__proto__''" and p: "cds_proto s = Some l"
      and n': "cds s ''__proto__'' = None"
      by auto
    from v on_proto [OF n' p] have "on v s = Inr (length (heap s), s\<lparr>heap := heap s @ [\<lparr>verb = v, noun = None, command = NoCommand, requiredArguments = None\<rparr>], cds_proto := Some (l @ [length (heap s)])\<rparr>)" by simp
    from trans [OF on [symmetric] this] have cd: "cd = length (heap s)"
      and s': "s' = s\<lparr>heap := heap s @ [\<lparr>verb = v, noun = None, command = NoCommand,
                                       requiredArguments = None\<rparr>],
                  cds_proto := Some (l @ [length (heap s)])\<rparr>"
      by simp_all
    from n v p cd s' show ?thesis by (rule that(2))
  qed
next
  case (Other b)
  show ?thesis
  proof (cases b)
    case True
    with Other on on_throws [of s v] show ?thesis by simp
  next
    case False
    with Other have f: "cds_get s v = Undefined \<or> cds_get s v = Other False" by simp
    from Other False cds_get_proto_truthy [of s] have v: "v \<noteq> ''__proto__''" by auto
    from Other have n: "cds s v = None" by (auto simp: cds_get_def split: option.splits)
    from trans [OF on [symmetric] on_starts [OF f]] have cd: "cd = length (heap s)"
      and s': "s' = s\<lparr>heap := heap s @ [\<lparr>verb = v, noun = None, command = NoCommand,
                                         requiredArguments = None\<rparr>],
                    cds := (cds s)(v \<mapsto> [length (heap s)])\<rparr>"
      by simp_all
    from n v f cd s' show ?thesis by (rule that(3))
  qed
qed

lemma on_Inr_iff: "(\<exists>r. on v s = Inr r) \<longleftrightarrow> cds_get s v \<noteq> Other True"
proof (cases "cds_get s v")
  case Undefined
  with on_starts [of s v] show ?thesis by simp
next
  case (Defs l)
  then have "cds s v = Some l \<or> (cds s v = None \<and> v = ''__proto__'' \<and> cds_proto s = Some l)"
    by (simp add: cds_get_Defs)
  with Defs on_own [of s v l] on_proto [of s l] show ?thesis by auto
next
  case (Other b)
  with on_starts [of s v] on_throws [of s v] show ?thesis by (cases b) auto
qed

subsection \<open>The registry after construction and after the builder\<close>

lemma cds_set_get: "cds_get (cds_set k l s) k = Defs l"
  by (simp add: cds_set_def cds_get_def)

lemma cds_set_heap [simp]: "heap (cds_set k l s) = heap s"
  by (simp add: cds_set_def)

lemma cds_set_keeps_Defs:
  "e \<noteq> k \<Longrightarrow> cds_get s k = Defs l \<Longrightarrow> cds_get (cds_set e x s) k = Defs l"
  by (auto simp: cds_get_Defs cds_set_def)

lemma install_exits_keeps_Defs:
  "k \<notin> set ecs \<Longrightarrow> cds_get s k = Defs l \<Longrightarrow> cds_get (install_exits ecs s) k = Defs l"
proof (induction ecs arbitrary: s)
  case Nil
  then show ?case by simp
next
  case (Cons ec ecs)
  from Cons.prems have "cds_get (cds_set ec [length (heap s)]
      (s\<lparr>heap := heap s @ [\<lparr>verb = ec, noun = None, command = exit,
                              requiredArguments = None\<rparr>]\<rparr>)) k = Defs l"
    by (intro cds_set_keeps_Defs) auto
  with Cons.IH Cons.prems(1) show ?case by simp
qed

lemma install_exits_spec:
  "length (heap (install_exits ecs s)) = length (heap s) + length ecs
   \<and> (\<forall>i < length (heap s). heap (install_exits ecs s) ! i = heap s ! i)
   \<and> (\<forall>ec \<in> set ecs. \<exists>a. cds_get (install_exits ecs s) ec = Defs [a]
          \<and> length (heap s) \<le> a \<and> a < length (heap (install_exits ecs s))
          \<and> heap (install_exits ecs s) ! a = exit_spec ec)"
proof (induction ecs arbitrary: s)
  case Nil
  show ?case by simp
next
  case (Cons ec ecs)
  let ?s1 = "cds_set ec [length (heap s)]
          (s\<lparr>heap := heap s @ [\<lparr>verb = ec, noun = None, command = exit,
                                  requiredArguments = None\<rparr>]\<rparr>)"
  note IH = Cons.IH [of ?s1]
  have step: "install_exits (ec # ecs) s = install_exits ecs ?s1" by simp
  have h1: "heap ?s1 = heap s @ [exit_spec ec]" by (simp add: exit_spec_def)
  from IH have len: "length (heap (install_exits ecs ?s1)) = length (heap s) + length (ec # ecs)"
    by (simp add: h1)
  from IH have old: "\<forall>i < length (heap s). heap (install_exits ecs ?s1) ! i = heap s ! i"
    by (auto simp: h1 nth_append)
  from IH have "\<forall>i < length (heap ?s1). heap (install_exits ecs ?s1) ! i = heap ?s1 ! i"
    by blast
  then have "heap (install_exits ecs ?s1) ! length (heap s) = heap ?s1 ! length (heap s)"
    by simp
  then have new: "heap (install_exits ecs ?s1) ! length (heap s) = exit_spec ec"
    by (simp add: exit_spec_def)
  have ex: "\<exists>a. cds_get (install_exits ecs ?s1) e = Defs [a]
          \<and> length (heap s) \<le> a \<and> a < length (heap (install_exits ecs ?s1))
          \<and> heap (install_exits ecs ?s1) ! a = exit_spec e" if e: "e \<in> set (ec # ecs)" for e
  proof (cases "e \<in> set ecs")
    case True
    with IH obtain a where "cds_get (install_exits ecs ?s1) e = Defs [a]"
      "length (heap ?s1) \<le> a" "a < length (heap (install_exits ecs ?s1))"
      "heap (install_exits ecs ?s1) ! a = exit_spec e"
      by blast
    then show ?thesis by (auto simp: h1)
  next
    case False
    with e have "e = ec" by simp
    moreover have "cds_get ?s1 ec = Defs [length (heap s)]" by (rule cds_set_get)
    ultimately have "cds_get (install_exits ecs ?s1) e = Defs [length (heap s)]"
      using False by (simp add: install_exits_keeps_Defs)
    with \<open>e = ec\<close> new len show ?thesis by auto
  qed
  from len old ex show ?case unfolding step by blast
qed

text \<open>With \<^verbatim>\<open>exitCommands\<close> given, construction succeeds: one exit definition per exit verb.\<close>

lemma constructor_exit_verbs:
  assumes "exitCommands cfg = Some ecs"
  shows "\<exists>s0. constructor cfg tty script = Inr s0
           \<and> (\<forall>ec \<in> set (ecs @ [''exit'']).
                 \<exists>a. cds_get s0 ec = Defs [a] \<and> heap s0 ! a = exit_spec ec)"
proof -
  let ?c = "\<lparr>title = Some (or_default (title cfg) DEFAULT_CONFIG_title),
             version = Some (or_default (version cfg) DEFAULT_CONFIG_version),
             exitCommands = Some (ecs @ DEFAULT_CONFIG_exitCommands)\<rparr>"
  let ?i = "install_exits (ecs @ [''exit'']) (fresh ?c tty script)"
  from assms have s0: "constructor cfg tty script = Inr (initInput ?i)"
    by (simp add: constructor_def DEFAULT_CONFIG_exitCommands_def)
  have h: "heap (initInput ?i) = heap ?i" by (simp add: initInput_eq)
  have c: "cds_get (initInput ?i) = cds_get ?i"
    by (rule ext, rule cds_get_frame) (simp_all add: initInput_eq)
  from install_exits_spec [of "ecs @ [''exit'']" "fresh ?c tty script"]
  have "\<forall>ec \<in> set (ecs @ [''exit'']). \<exists>a. cds_get ?i ec = Defs [a] \<and> heap ?i ! a = exit_spec ec"
    by blast
  with s0 h c show ?thesis by simp
qed

lemma exits_first_constructor:
  assumes "constructor cfg tty script = Inr s0" and "exitCommands cfg = Some ecs"
  shows "exits_first (length (heap s0)) (set (ecs @ [''exit''])) s0"
proof -
  let ?c = "\<lparr>title = Some (or_default (title cfg) DEFAULT_CONFIG_title),
             version = Some (or_default (version cfg) DEFAULT_CONFIG_version),
             exitCommands = Some (ecs @ DEFAULT_CONFIG_exitCommands)\<rparr>"
  let ?i = "install_exits (ecs @ [''exit'']) (fresh ?c tty script)"
  from assms have s0: "s0 = initInput ?i"
    by (simp add: constructor_def DEFAULT_CONFIG_exitCommands_def)
  have h: "heap s0 = heap ?i" by (simp add: s0 initInput_eq)
  have c: "cds_get s0 = cds_get ?i"
    by (rule ext, rule cds_get_frame) (simp_all add: s0 initInput_eq)
  from install_exits_spec [of "ecs @ [''exit'']" "fresh ?c tty script"]
  have "\<forall>ec \<in> set (ecs @ [''exit'']). \<exists>a. cds_get ?i ec = Defs [a] \<and> a < length (heap ?i)
          \<and> heap ?i ! a = exit_spec ec"
    by blast
  then show ?thesis unfolding exits_first_def h c by blast
qed

text \<open>
  A call of \<^verbatim>\<open>on\<close> that returns appends one placeholder to the store and its address
  to the list of the verb; a list keeps what it held, in its order.
\<close>

lemma on_heap:
  assumes "on v s = Inr (cd, s')"
  shows "cd = length (heap s)"
    and "heap s' = heap s @ [\<lparr>verb = v, noun = None, command = NoCommand,
                              requiredArguments = None\<rparr>]"
  using assms by (cases rule: on_result_cases; simp)+

lemma on_frame:
  assumes "on v s = Inr (cd, s')"
  shows "s'\<lparr>cds := cds s, cds_proto := cds_proto s, heap := heap s\<rparr> = s"
  using assms by (cases rule: on_result_cases) simp_all

lemma on_list:
  assumes "on v s = Inr (cd, s')"
  shows "cds_get s' v = Defs ((case cds_get s v of Defs l \<Rightarrow> l | _ \<Rightarrow> []) @ [cd])"
  using assms
proof (cases rule: on_result_cases)
  case (own l)
  then show ?thesis by (simp add: cds_get_own)
next
  case (proto l)
  then show ?thesis by (simp add: cds_get_def)
next
  case starts
  from starts(3) have "(case cds_get s v of Defs l \<Rightarrow> l | _ \<Rightarrow> []) = []" by auto
  with starts show ?thesis by (simp add: cds_get_own)
qed

lemma on_other_lists:
  assumes "on v s = Inr (cd, s')" and "u \<noteq> v" and "cds_get s u = Defs l"
  shows "cds_get s' u = Defs l"
  using assms(1)
proof (cases rule: on_result_cases)
  case (own l')
  with assms(2,3) show ?thesis by (auto simp: cds_get_Defs)
next
  case (proto l')
  with assms(2,3) show ?thesis by (auto simp: cds_get_Defs)
next
  case starts
  with assms(2,3) show ?thesis by (auto simp: cds_get_Defs)
qed

lemma on_keeps_head:
  assumes "on v s = Inr (cd, s')" and "cds_get s u = Defs (a # ds)"
  shows "\<exists>ds'. cds_get s' u = Defs (a # ds')"
proof (cases "u = v")
  case True
  with on_list [OF assms(1)] assms(2) show ?thesis by simp
next
  case False
  from on_other_lists [OF assms(1) False assms(2)] show ?thesis by blast
qed

lemma exits_first_on:
  assumes "exits_first base E s" and "on v s = Inr (cd, s')"
  shows "exits_first base E s'"
proof -
  note h = on_heap(2) [OF assms(2)]
  from assms(1) have b: "base \<le> length (heap s)" by (simp add: exits_first_def)
  then have b': "base \<le> length (heap s')" by (simp add: h)
  have "\<exists>a ds. cds_get s' ec = Defs (a # ds) \<and> a < base \<and> heap s' ! a = exit_spec ec"
    if "ec \<in> E" for ec
  proof -
    from assms(1) that obtain a ds where
      a: "cds_get s ec = Defs (a # ds)" "a < base" "heap s ! a = exit_spec ec"
      unfolding exits_first_def by blast
    from a b have "heap s' ! a = exit_spec ec" by (simp add: h nth_append)
    with on_keeps_head [OF assms(2) a(1)] a(2) show ?thesis by blast
  qed
  with b' show ?thesis unfolding exits_first_def by blast
qed

lemma exits_first_update:
  assumes "exits_first base E s" and "base \<le> a"
  shows "exits_first base E (s\<lparr>heap := (heap s)[a := x]\<rparr>)"
proof -
  have "\<exists>b ds. cds_get s ec = Defs (b # ds) \<and> b < base \<and> (heap s)[a := x] ! b = exit_spec ec"
    if "ec \<in> E" for ec
  proof -
    from assms(1) that obtain b ds where
      b: "cds_get s ec = Defs (b # ds)" "b < base" "heap s ! b = exit_spec ec"
      unfolding exits_first_def by blast
    with assms(2) have "(heap s)[a := x] ! b = exit_spec ec" by simp
    with b show ?thesis by blast
  qed
  with assms(1) show ?thesis unfolding exits_first_def by simp
qed

lemma exits_first_stage_calls:
  "exits_first base E s \<Longrightarrow> exits_first base E (stage_calls base calls s)"
proof (induction base calls s rule: stage_calls.induct)
  case (1 base s)
  then show ?case by simp
next
  case (2 base v cs s)
  show ?case
  proof (cases "on v s")
    case (Inl e)
    with 2 show ?thesis by simp
  next
    case (Inr r)
    obtain cd s' where r: "r = (cd, s')" by (cases r)
    from exits_first_on [OF "2.prems" Inr [unfolded r]] have "exits_first base E s'" .
    with 2 Inr r show ?thesis by simp
  qed
next
  case (3 base k n cs s)
  then show ?case by (simp add: ss_with_def exits_first_update)
next
  case (4 base k c cs s)
  then show ?case by (simp add: call_def exits_first_update)
next
  case (5 base k reqs cs s)
  then show ?case by (simp add: requiring_def exits_first_update)
qed

lemma exits_first_lookup:
  assumes "exits_first base E s" and "ec \<in> E"
  shows "\<exists>a. a < base \<and> lookup s ec None = Inr (Some a) \<and> heap s ! a = exit_spec ec"
proof -
  from assms obtain a ds where "cds_get s ec = Defs (a # ds)" "a < base"
    "heap s ! a = exit_spec ec"
    unfolding exits_first_def by blast
  then show ?thesis by (auto simp: lookup_def exit_spec_def)
qed

lemma allocated_Defs:
  "allocated s \<Longrightarrow> cds_get s u = Defs l \<Longrightarrow> a \<in> set l \<Longrightarrow> a < length (heap s)"
  unfolding allocated_def cds_get_Defs by blast

lemma allocated_cds_set:
  assumes "allocated s" and "\<forall>a \<in> set l. a < length (heap s)"
  shows "allocated (cds_set k l s)"
  using assms unfolding allocated_def cds_set_def by auto

lemma allocated_grow: "allocated s \<Longrightarrow> allocated (s\<lparr>heap := heap s @ xs\<rparr>)"
  unfolding allocated_def by fastforce

lemma allocated_install_exits: "allocated s \<Longrightarrow> allocated (install_exits ecs s)"
proof (induction ecs arbitrary: s)
  case Nil
  then show ?case by simp
next
  case (Cons ec ecs)
  let ?g = "s\<lparr>heap := heap s @ [\<lparr>verb = ec, noun = None, command = exit,
                                  requiredArguments = None\<rparr>]\<rparr>"
  from Cons.prems have "allocated ?g" by (rule allocated_grow)
  then have "allocated (cds_set ec [length (heap s)] ?g)"
    by (rule allocated_cds_set) simp
  with Cons.IH show ?case by simp
qed

lemma allocated_constructor:
  assumes "constructor cfg tty script = Inr s0"
  shows "allocated s0"
proof -
  from assms obtain ecs where ecs: "exitCommands cfg = Some ecs"
    by (auto simp: constructor_def split: option.splits)
  let ?c = "\<lparr>title = Some (or_default (title cfg) DEFAULT_CONFIG_title),
             version = Some (or_default (version cfg) DEFAULT_CONFIG_version),
             exitCommands = Some (ecs @ DEFAULT_CONFIG_exitCommands)\<rparr>"
  let ?i = "install_exits (ecs @ [''exit'']) (fresh ?c tty script)"
  from assms ecs have s0: "s0 = initInput ?i"
    by (simp add: constructor_def DEFAULT_CONFIG_exitCommands_def)
  have "allocated (fresh ?c tty script)" by (simp add: allocated_def fresh_def)
  then have "allocated ?i" by (rule allocated_install_exits)
  then show ?thesis by (simp add: s0 allocated_def initInput_eq)
qed

lemma allocated_on:
  assumes "allocated s" and "on v s = Inr (cd, s')"
  shows "allocated s'"
  using assms(2)
proof (cases rule: on_result_cases)
  case (own l)
  with assms(1) show ?thesis unfolding allocated_def by (fastforce split: if_splits)
next
  case (proto l)
  with assms(1) show ?thesis unfolding allocated_def by fastforce
next
  case starts
  with assms(1) show ?thesis unfolding allocated_def by (fastforce split: if_splits)
qed

lemma allocated_update:
  "allocated s \<Longrightarrow> allocated (s\<lparr>heap := (heap s)[a := x]\<rparr>)"
  unfolding allocated_def by simp

lemma allocated_fresh:
  assumes "allocated s" and "cds_get s u = Defs ds"
  shows "length (heap s) \<notin> set ds"
proof
  assume "length (heap s) \<in> set ds"
  from allocated_Defs [OF assms this] show False by simp
qed

subsection \<open>The example shell, evaluated\<close>

lemmas registry_eval =
  on_def Let_def cds_get_def cds_set_def cds_push_def inherited_def Object_prototype_def

lemma constructor_example: "constructor example_config True script = Inr (constructed script)"
  by (simp add: constructor_def fresh_def example_config_def or_default_def constructed_def
      DEFAULT_CONFIG_title_def DEFAULT_CONFIG_version_def DEFAULT_CONFIG_exitCommands_def
      initInput_def Let_def cds_set_def)

lemma example_state_eq:
  "example_state script =
     \<lparr>config = \<lparr>title = Some ''Slimshell'', version = Some ''1.0.0'',
                 exitCommands = Some [''quit'', ''exit'']\<rparr>,
      cds = [''quit'' \<mapsto> [0], ''exit'' \<mapsto> [1], ''login'' \<mapsto> [2]], cds_proto = None,
      heap = [\<lparr>verb = ''quit'', noun = None, command = exit, requiredArguments = None\<rparr>,
              \<lparr>verb = ''exit'', noun = None, command = exit, requiredArguments = None\<rparr>,
              \<lparr>verb = ''login'', noun = None, command = login,
                 requiredArguments = Some [token]\<rparr>],
      input = Some 0, interfaces = 1, closed = [], keypressEvents = True, keypress = 0,
      isTTY = True, rawMode = False, stdin = script, out = []\<rparr>"
  by (simp add: example_state_def constructed_def registry_eval call_def requiring_def
      eval_nat_numeral)

lemma pay_state_eq:
  "pay_state script =
     \<lparr>config = \<lparr>title = Some ''Slimshell'', version = Some ''1.0.0'',
                 exitCommands = Some [''quit'', ''exit'']\<rparr>,
      cds = [''quit'' \<mapsto> [0], ''exit'' \<mapsto> [1], ''login'' \<mapsto> [2], ''pay'' \<mapsto> [3]],
      cds_proto = None,
      heap = [\<lparr>verb = ''quit'', noun = None, command = exit, requiredArguments = None\<rparr>,
              \<lparr>verb = ''exit'', noun = None, command = exit, requiredArguments = None\<rparr>,
              \<lparr>verb = ''login'', noun = None, command = login,
                 requiredArguments = Some [token]\<rparr>,
              \<lparr>verb = ''pay'', noun = None, command = login,
                 requiredArguments = Some [token, pin]\<rparr>],
      input = Some 0, interfaces = 1, closed = [], keypressEvents = True, keypress = 0,
      isTTY = True, rawMode = False, stdin = script, out = []\<rparr>"
  by (simp add: pay_state_def example_state_eq registry_eval call_def requiring_def
      eval_nat_numeral)


lemma trim_word:
  "strip_prefix blanks v = None \<Longrightarrow> strip_prefix (map rev blanks) (rev v) = None \<Longrightarrow>
   trim v = v"
  by (simp add: trim_def trimStart.simps)

lemma trim_login: "trim ''login'' = ''login''"
  by (rule trim_word) (simp_all add: blanks_def)

lemma trim_exit: "trim ''exit'' = ''exit''"
  by (rule trim_word) (simp_all add: blanks_def)

lemma trim_abc: "trim ''abc'' = ''abc''"
  by (rule trim_word) (simp_all add: blanks_def)

lemma trim_nope: "trim ''nope'' = ''nope''"
  by (rule trim_word) (simp_all add: blanks_def)

lemma trim_status: "trim ''status'' = ''status''"
  by (rule trim_word) (simp_all add: blanks_def)

lemma trim_constructor: "trim ''constructor'' = ''constructor''"
  by (rule trim_word) (simp_all add: blanks_def)

lemmas trim_eval = trim_login trim_exit trim_abc trim_nope trim_status trim_constructor

lemma parse_login: "parseCommand tokenize ''login'' = (''login'', None, [''_'' \<mapsto> VArr []])"
  by (simp add: parseCommand_def bag_def)

lemma parse_exit: "parseCommand tokenize ''exit'' = (''exit'', None, [''_'' \<mapsto> VArr []])"
  by (simp add: parseCommand_def bag_def)


lemma parse_pay: "parseCommand tokenize ''pay'' = (''pay'', None, [''_'' \<mapsto> VArr []])"
  by (simp add: parseCommand_def bag_def)

lemma lookup_login: "lookup (example_state script) ''login'' None = Inr (Some 2)"
  by (simp add: lookup_def cds_get_def example_state_eq)

lemma lookup_pay: "lookup (pay_state script) ''pay'' None = Inr (Some 3)"
  by (simp add: lookup_def cds_get_def pay_state_eq)

lemma falsy_value_prompts:
  "stdin s = [Line ''abc''] \<Longrightarrow>
   resolveArguments [token] [''token'' \<mapsto> VBool False] s
   = (Returns (Resolved [''token'' \<mapsto> VStr ''abc'']),
      s\<lparr>rawMode := (isTTY s \<or> rawMode s), keypress := Suc (keypress s),
        out := out s @ [Question (Yellow ''  $Token: '')], stdin := []\<rparr>)"
  by (simp add: token_def promptLoop.simps getArgument_def trim_eval Let_def bag_truthy_def
      bag_defined_def store_alternative_def Object_prototype_def)

lemma get_exit:
  "getCommand (example_state [Line ''exit''])
   = (Returns ''exit'', (example_state [])\<lparr>out := [Question (Plain ''> '')]\<rparr>)"
  by (simp add: getCommand_eq example_state_eq)

lemma normalise_exit: "normaliseCommand ''exit'' = ''exit''"
  by (simp add: normaliseCommand_def trim_eval)

lemma answered_login:
  "runCommand tokenize ''login'' (example_state [Line ''abc''])
   = (Returns True,
      (example_state [])\<lparr>keypress := 1, rawMode := True,
         out := [Question (Yellow ''  $Token: ''),
                 Invoke 2 [''_'' \<mapsto> VArr [], ''token'' \<mapsto> VStr ''abc''],
                 ConsoleLog (Cyan ''  token abc'')]\<rparr>)"
  by (simp add: runCommand_def parse_login lookup_def cds_get_def resolve_def example_state_eq
      token_def promptLoop.simps getArgument_eq invoke_eq login_def trim_eval bag_truthy_def
      bag_defined_def store_alternative_def Object_prototype_def)

lemma session:
  "run tokenize (example_state [Line ''login'', Line ''abc'', Line ''login'', Escape, Line ''exit''])
   = (Returns True,
      (example_state [])\<lparr>input := Some 1, interfaces := 2, closed := [0], keypress := 2,
         rawMode := True,
         out := [Question (Plain ''> ''), Question (Yellow ''  $Token: ''),
                 Invoke 2 [''_'' \<mapsto> VArr [], ''token'' \<mapsto> VStr ''abc''],
                 ConsoleLog (Cyan ''  token abc''),
                 Question (Plain ''> ''), Question (Yellow ''  $Token: ''),
                 ConsoleLog (Plain ''Cancelled''),
                 Question (Plain ''> ''), Invoke 1 [''_'' \<mapsto> VArr []],
                 ConsoleLog (Cyan ''  byeee'')]\<rparr>)"
  by (simp add: run.simps iteration_def getCommand_eq normaliseCommand_def trim_eval
      runCommand_def parseCommand_def bag_def lookup_def cds_get_def resolve_def
      example_state_eq token_def promptLoop.simps getArgument_eq initInput_eq console_log_def
      invoke_eq login_def exit_def eval_nat_numeral bag_truthy_def bag_defined_def
      store_alternative_def Object_prototype_def)


subsection \<open>A resolution that waits, waits at a prompt\<close>

lemma getArgument_out:
  "getArgument req s = (r, t) \<Longrightarrow>
   out t = out s @ [Question (Yellow (''  $'' @ description req @ '': ''))]"
  by (auto simp: getArgument_eq)

lemma promptLoop_awaits_prompt:
  "promptLoop req a u = (r, t) \<Longrightarrow> r = Awaits \<Longrightarrow>
   \<exists>qs. qs \<noteq> [] \<and> out t = out u @ map (\<lambda>q. Question (Yellow q)) qs"
proof (induction rule: promptLoop_cases)
  case (truthy args s)
  then show ?case by simp
next
  case (awaits args s s1)
  from getArgument_out [OF awaits(2)] show ?case
    by (intro exI [of _ "[''  $'' @ description req @ '': '']"]) simp
next
  case (cancelled args s e s1)
  then show ?case by simp
next
  case (answered args s v s1 r s')
  from answered(4) [OF answered(5)] obtain qs where
    qs: "out s' = out s1 @ map (\<lambda>q. Question (Yellow q)) qs" by blast
  from getArgument_out [OF answered(2)] qs show ?case
    by (intro exI [of _ "(''  $'' @ description req @ '': '') # qs"]) simp
qed

lemma resolveArguments_awaits_prompt:
  "resolveArguments reqs a u = (r, t) \<Longrightarrow> r = Awaits \<Longrightarrow>
   \<exists>qs. qs \<noteq> [] \<and> out t = out u @ map (\<lambda>q. Question (Yellow q)) qs"
proof (induction rule: resolveArguments_cases)
  case (finished args s)
  then show ?case by simp
next
  case (skip req reqs args s r s')
  then show ?case by simp
next
  case (throws req reqs args s)
  then show ?case by simp
next
  case (stop req reqs args s alts r s')
  from promptLoop_awaits_prompt [OF stop(3) stop(5)] show ?case .
next
  case (resolved req reqs args s alts args1 s1 r s')
  from promptLoop_prompted [OF resolved(3)] obtain qs1 where
    qs1: "out s1 = out s @ map (\<lambda>q. Question (Yellow q)) qs1"
    by (auto simp: prompted_def)
  from resolved(5) [OF resolved(6)] obtain qs where
    qs: "qs \<noteq> []" "out s' = out s1 @ map (\<lambda>q. Question (Yellow q)) qs" by blast
  from qs1 qs show ?case by (intro exI [of _ "qs1 @ qs"]) simp
qed

lemma awaits_at_prompt:
  "resolve cd args s = (Awaits, t) \<Longrightarrow>
   \<exists>qs. qs \<noteq> [] \<and> out t = out s @ map (\<lambda>q. Question (Yellow q)) qs"
  by (auto simp: resolve_def split: option.splits dest: resolveArguments_awaits_prompt)

lemma greet_state_eq:
  "greet_state =
     \<lparr>config = \<lparr>title = Some ''Slimshell'', version = Some ''1.0.0'',
                 exitCommands = Some [''quit'', ''exit'']\<rparr>,
      cds = [''quit'' \<mapsto> [0, 5], ''exit'' \<mapsto> [1], ''greet'' \<mapsto> [2, 3, 4]], cds_proto = None,
      heap = [\<lparr>verb = ''quit'', noun = None, command = exit, requiredArguments = None\<rparr>,
              \<lparr>verb = ''exit'', noun = None, command = exit, requiredArguments = None\<rparr>,
              \<lparr>verb = ''greet'', noun = Some ''bob'', command = NoCommand,
                 requiredArguments = None\<rparr>,
              \<lparr>verb = ''greet'', noun = None, command = NoCommand, requiredArguments = None\<rparr>,
              \<lparr>verb = ''greet'', noun = Some ''bob'', command = NoCommand,
                 requiredArguments = None\<rparr>,
              \<lparr>verb = ''quit'', noun = None, command = login, requiredArguments = None\<rparr>],
      input = Some 0, interfaces = 1, closed = [], keypressEvents = True, keypress = 0,
      isTTY = True, rawMode = False, stdin = [], out = []\<rparr>"
  by (simp add: greet_state_def constructed_def registry_eval ss_with_def call_def
      eval_nat_numeral fun_upd_twist)

lemma pay_waits_for_token:
  "resolve (heap (pay_state []) ! 3) [''_'' \<mapsto> VArr []] (pay_state [])
   = (Awaits, (pay_state [])\<lparr>keypress := 1, rawMode := True,
                 out := [Question (Yellow ''  $Token: '')]\<rparr>)"
  by (simp add: pay_state_eq resolve_def token_def pin_def promptLoop.simps getArgument_eq
      bag_truthy_def bag_defined_def store_alternative_def Object_prototype_def
      eval_nat_numeral)

lemma pay_waits_for_pin:
  "resolve (heap (pay_state [Line ''abc'']) ! 3) [''_'' \<mapsto> VArr []] (pay_state [Line ''abc''])
   = (Awaits, (pay_state [])\<lparr>keypress := 2, rawMode := True,
                 out := [Question (Yellow ''  $Token: ''), Question (Yellow ''  $Pin: '')]\<rparr>)"
  by (simp add: pay_state_eq resolve_def token_def pin_def promptLoop.simps getArgument_eq
      bag_truthy_def bag_defined_def store_alternative_def Object_prototype_def
      trim_eval eval_nat_numeral)

subsection \<open>One iteration of the loop, and one chain of stages\<close>

text \<open>
  What one iteration does, by the outcome of lookup and of resolution; the loop goes on
  exactly while \<^verbatim>\<open>running\<close> is true.
\<close>

lemma iteration_outcomes:
  assumes "getCommand s = (Returns line, s1)"
    and "parseCommand minimist (normaliseCommand line) = (v, n, args)"
  shows "(\<forall>e. lookup s1 v n = Inl e \<longrightarrow> iteration minimist s = (Throws e, s1))
       \<and> (lookup s1 v n = Inr None \<longrightarrow>
            iteration minimist s = (Returns True, console_log (Cyan ''  wut?'') s1))
       \<and> (\<forall>cd s2. lookup s1 v n = Inr (Some cd) \<longrightarrow>
            resolve (heap s1 ! cd) args s1 = (Returns Cancelled, s2) \<longrightarrow>
            iteration minimist s = (Returns True, s2))
       \<and> (\<forall>cd args' s2. lookup s1 v n = Inr (Some cd) \<longrightarrow>
            resolve (heap s1 ! cd) args s1 = (Returns (Resolved args'), s2) \<longrightarrow>
            iteration minimist s =
              (Returns (success (command (heap s1 ! cd) args')),
               s2\<lparr>out := out s2 @ Invoke cd args' #
                  map (\<lambda>m. ConsoleLog (Cyan (''  '' @ m)))
                    (case messages (command (heap s1 ! cd) args') of
                       None \<Rightarrow> [] | Some ms \<Rightarrow> ms)\<rparr>))
       \<and> (\<forall>running s'. iteration minimist s = (Returns running, s') \<longrightarrow>
            run minimist s = (if running then run minimist s' else (Returns True, s')))
       \<and> (\<forall>e s'. iteration minimist s = (Throws e, s') \<longrightarrow>
            run minimist s = (Throws e, s'))"
proof -
  from assms(1) have it: "iteration minimist s = runCommand minimist (normaliseCommand line) s1"
    by (simp add: iteration_def)
  note p = assms(2)
  have 0: "\<forall>e. lookup s1 v n = Inl e \<longrightarrow> iteration minimist s = (Throws e, s1)"
    by (simp add: it runCommand_throws [OF p])
  have 1: "lookup s1 v n = Inr None \<longrightarrow>
            iteration minimist s = (Returns True, console_log (Cyan ''  wut?'') s1)"
    by (simp add: it runCommand_unmatched [OF p])
  have 2: "\<forall>cd s2. lookup s1 v n = Inr (Some cd) \<longrightarrow>
            resolve (heap s1 ! cd) args s1 = (Returns Cancelled, s2) \<longrightarrow>
            iteration minimist s = (Returns True, s2)"
    by (simp add: it runCommand_cancelled [OF p])
  have 3: "\<forall>cd args' s2. lookup s1 v n = Inr (Some cd) \<longrightarrow>
            resolve (heap s1 ! cd) args s1 = (Returns (Resolved args'), s2) \<longrightarrow>
            iteration minimist s =
              (Returns (success (command (heap s1 ! cd) args')),
               s2\<lparr>out := out s2 @ Invoke cd args' #
                  map (\<lambda>m. ConsoleLog (Cyan (''  '' @ m)))
                    (case messages (command (heap s1 ! cd) args') of
                       None \<Rightarrow> [] | Some ms \<Rightarrow> ms)\<rparr>)"
    by (simp add: it runCommand_resolved [OF p])
  have 5: "\<forall>running s'. iteration minimist s = (Returns running, s') \<longrightarrow>
            run minimist s = (if running then run minimist s' else (Returns True, s'))"
    by (simp add: run_unfold)
  have 6: "\<forall>e s'. iteration minimist s = (Throws e, s') \<longrightarrow> run minimist s = (Throws e, s')"
    by (subst run.simps) simp
  from 0 1 2 3 5 6 show ?thesis by blast
qed

text \<open>
  Where \<^verbatim>\<open>on\<close> returns, from any state whose registry is allocated: every stage
  returns the address that \<^verbatim>\<open>on\<close> returned; the store is the old store followed by one
  new definition with the fields the stages set (unset fields absent); the list of the
  verb is its old list followed by that one address, which no list held before, and
  the other lists are unchanged; and \<^verbatim>\<open>run\<close> changes neither the registry nor the store.
\<close>

lemma builder_chains:
  assumes "allocated s" and "on v s = Inr (b, s1)"
  shows "(case ss_with b n s1 of (w, s2) \<Rightarrow>
            case call w h s2 of (c, s3) \<Rightarrow> case requiring c reqs s3 of (r, s4) \<Rightarrow>
              w = b \<and> c = b \<and> r = b
            \<and> heap s4 = heap s @ [\<lparr>verb = v, noun = Some n, command = h,
                                     requiredArguments = Some reqs\<rparr>]
            \<and> cds_get s4 v = Defs ((case cds_get s v of Defs l \<Rightarrow> l | _ \<Rightarrow> []) @ [b])
            \<and> (\<forall>u l. u \<noteq> v \<longrightarrow> cds_get s u = Defs l \<longrightarrow> cds_get s4 u = Defs l)
            \<and> (\<forall>u l. cds_get s u = Defs l \<longrightarrow> b \<notin> set l)
            \<and> allocated s4
            \<and> cds (snd (run minimist s4)) = cds s4
            \<and> cds_proto (snd (run minimist s4)) = cds_proto s4
            \<and> heap (snd (run minimist s4)) = heap s4)
       \<and> (case call b h s1 of (c, s3) \<Rightarrow>
              c = b
            \<and> heap s3 = heap s @ [\<lparr>verb = v, noun = None, command = h,
                                     requiredArguments = None\<rparr>]
            \<and> cds_get s3 v = Defs ((case cds_get s v of Defs l \<Rightarrow> l | _ \<Rightarrow> []) @ [b])
            \<and> (\<forall>u l. u \<noteq> v \<longrightarrow> cds_get s u = Defs l \<longrightarrow> cds_get s3 u = Defs l)
            \<and> (\<forall>u l. cds_get s u = Defs l \<longrightarrow> b \<notin> set l)
            \<and> allocated s3
            \<and> cds (snd (run minimist s3)) = cds s3
            \<and> cds_proto (snd (run minimist s3)) = cds_proto s3
            \<and> heap (snd (run minimist s3)) = heap s3)"
proof -
  note b = on_heap(1) [OF assms(2)] and h1 = on_heap(2) [OF assms(2)]
  have fresh: "\<forall>u l. cds_get s u = Defs l \<longrightarrow> b \<notin> set l"
    using allocated_fresh [OF assms(1)] b by blast
  have reg: "cds (snd (run minimist t)) = cds t \<and> cds_proto (snd (run minimist t)) = cds_proto t
      \<and> heap (snd (run minimist t)) = heap t" for t
    using run_registry [of minimist t "fst (run minimist t)" "snd (run minimist t)"] by simp
  have others: "\<forall>u l. u \<noteq> v \<longrightarrow> cds_get s u = Defs l \<longrightarrow> cds_get s1 u = Defs l"
    using on_other_lists [OF assms(2)] by blast
  note own = on_list [OF assms(2)]
  let ?s2 = "snd (ss_with b n s1)"
  let ?s3 = "snd (call b h ?s2)"
  let ?s4 = "snd (requiring b reqs ?s3)"
  let ?t3 = "snd (call b h s1)"
  have a1: "allocated s1" using assms by (rule allocated_on)
  then have a2: "allocated ?s2" by (simp add: ss_with_def allocated_update)
  then have a3: "allocated ?s3" by (simp add: call_def allocated_update)
  then have a4: "allocated ?s4" by (simp add: requiring_def allocated_update)
  from a1 have b3: "allocated ?t3" by (simp add: call_def allocated_update)
  have g4: "cds_get ?s4 = cds_get s1"
    by (rule ext, rule cds_get_frame) (simp_all add: ss_with_def call_def requiring_def)
  have g3: "cds_get ?t3 = cds_get s1"
    by (rule ext, rule cds_get_frame) (simp_all add: call_def)
  have h4: "heap ?s4 = heap s @ [\<lparr>verb = v, noun = Some n, command = h,
                                     requiredArguments = Some reqs\<rparr>]"
    by (simp add: ss_with_def call_def requiring_def h1 b)
  have h3: "heap ?t3 = heap s @ [\<lparr>verb = v, noun = None, command = h,
                                     requiredArguments = None\<rparr>]"
    by (simp add: call_def h1 b)
  have long: "case ss_with b n s1 of (w, s2) \<Rightarrow>
            case call w h s2 of (c, s3) \<Rightarrow> case requiring c reqs s3 of (r, s4) \<Rightarrow>
              w = b \<and> c = b \<and> r = b
            \<and> heap s4 = heap s @ [\<lparr>verb = v, noun = Some n, command = h,
                                     requiredArguments = Some reqs\<rparr>]
            \<and> cds_get s4 v = Defs ((case cds_get s v of Defs l \<Rightarrow> l | _ \<Rightarrow> []) @ [b])
            \<and> (\<forall>u l. u \<noteq> v \<longrightarrow> cds_get s u = Defs l \<longrightarrow> cds_get s4 u = Defs l)
            \<and> (\<forall>u l. cds_get s u = Defs l \<longrightarrow> b \<notin> set l)
            \<and> allocated s4
            \<and> cds (snd (run minimist s4)) = cds s4
            \<and> cds_proto (snd (run minimist s4)) = cds_proto s4
            \<and> heap (snd (run minimist s4)) = heap s4"
    using fresh reg [of ?s4] a4 g4 h4 own others
    by (simp add: ss_with_def call_def requiring_def)
  have short: "case call b h s1 of (c, s3) \<Rightarrow>
              c = b
            \<and> heap s3 = heap s @ [\<lparr>verb = v, noun = None, command = h,
                                     requiredArguments = None\<rparr>]
            \<and> cds_get s3 v = Defs ((case cds_get s v of Defs l \<Rightarrow> l | _ \<Rightarrow> []) @ [b])
            \<and> (\<forall>u l. u \<noteq> v \<longrightarrow> cds_get s u = Defs l \<longrightarrow> cds_get s3 u = Defs l)
            \<and> (\<forall>u l. cds_get s u = Defs l \<longrightarrow> b \<notin> set l)
            \<and> allocated s3
            \<and> cds (snd (run minimist s3)) = cds s3
            \<and> cds_proto (snd (run minimist s3)) = cds_proto s3
            \<and> heap (snd (run minimist s3)) = heap s3"
    using fresh reg [of ?t3] b3 g3 h3 own others
    by (simp add: call_def)
  from long short show ?thesis by (rule conjI)
qed

section \<open>The claims\<close>

subsection \<open>C1: an alternative that is present\<close>

text \<open>
  Claim C1: for a required argument whose primary name is absent from the bag while
  one of its alternatives is present, resolution copies the alternative's value into
  the primary name without prompting; with \<^verbatim>\<open>name = "token"\<close>, \<^verbatim>\<open>alternatives = ["t"]\<close>
  and the bag \<^verbatim>\<open>{t: "abc"}\<close> it yields \<^verbatim>\<open>token: "abc"\<close>.

  The code does not prompt (the state is unchanged), but line 149 stores what
  \<^verbatim>\<open>Array.prototype.find\<close> returns, which is the matching element of \<^verbatim>\<open>alternatives\<close>: the
  alternative's name \<^verbatim>\<open>"t"\<close>, not its value \<^verbatim>\<open>"abc"\<close>. In the example shell, the line
  \<^verbatim>\<open>login --t abc\<close> hands the handler the bag with \<^verbatim>\<open>token: "t"\<close>.
\<close>

theorem C1_alternative_name_not_value:
  "resolveArguments
     [\<lparr>description = ''Token'', name = ''token'', alternatives = Some [''t'']\<rparr>]
     [''t'' \<mapsto> VStr ''abc''] s
   = (Returns (Resolved [''t'' \<mapsto> VStr ''abc'', ''token'' \<mapsto> VStr ''t'']), s)
   \<and> [''t'' \<mapsto> VStr ''abc'', ''token'' \<mapsto> VStr ''t''] ''token'' \<noteq> Some (VStr ''abc'')
   \<and> runCommand tokenize ''login --t abc'' (example_state [])
       = (Returns True,
          (example_state [])
            \<lparr>out := [Invoke 2 [''t'' \<mapsto> VStr ''abc'', ''_'' \<mapsto> VArr [], ''token'' \<mapsto> VStr ''t''],
                     ConsoleLog (Cyan ''  token t'')]\<rparr>)"
  by (simp add: promptLoop_truthy runCommand_def parseCommand_def bag_def lookup_def cds_get_def
      resolve_def example_state_eq token_def invoke_eq login_def bag_truthy_def bag_defined_def
      store_alternative_def Object_prototype_def)

subsection \<open>C2: a configuration without exit commands\<close>

text \<open>
  Claim C2: construction succeeds for every configuration, including one that omits
  \<^verbatim>\<open>exitCommands\<close>, and the exit verbs are the configured aliases together with the
  default \<^verbatim>\<open>"exit"\<close>, one exit definition per verb.

  \<^verbatim>\<open>ISlimshellConfig\<close> declares \<^verbatim>\<open>exitCommands\<close> optional and \<^verbatim>\<open>DEFAULT_CONFIG\<close> has a default
  for it, but line 80 spreads \<^verbatim>\<open>config.exitCommands\<close> without a default: when the field
  is omitted the constructor throws a TypeError, whatever the other fields are.
\<close>

theorem C2_omitted_exitCommands_throws:
  "constructor \<lparr>title = t, version = v, exitCommands = None\<rparr> tty script = Inl TypeError"
  by (simp add: constructor_def)

subsection \<open>C3: a required argument without alternatives\<close>

text \<open>
  Claim C3: for a required argument whose \<^verbatim>\<open>alternatives\<close> field is absent and whose
  primary name is missing from the bag, resolution does not fail and goes on to the
  interactive prompt.

  \<^verbatim>\<open>IArgumentDefinition\<close> declares \<^verbatim>\<open>alternatives\<close> optional, but line 149 calls
  \<^verbatim>\<open>req.alternatives.find\<close> unguarded: with the field absent, resolution throws a
  TypeError before any prompt (the state is unchanged: no query was written). This
  happens for every name that the empty bag does not inherit from \<^verbatim>\<open>Object.prototype\<close>;
  an inherited name reads as present at line 148 and the argument is skipped. After
  \<^verbatim>\<open>.on("status").call(login).requiring([{name: "token", description: "Token"}])\<close> the
  line \<^verbatim>\<open>status\<close> makes the whole loop throw, with nothing written but the command prompt.
\<close>

theorem C3_absent_alternatives_throws:
  "resolveArguments (\<lparr>description = d, name = n, alternatives = None\<rparr> # reqs) Map.empty s
   = (if n \<in> set Object_prototype then resolveArguments reqs Map.empty s
      else (Throws TypeError, s))
   \<and> (case on ''status'' (constructed [Line ''status'']) of
        Inl e \<Rightarrow> False
      | Inr (w, s1) \<Rightarrow>
          (case call w login s1 of
             (r, s2) \<Rightarrow>
               (case requiring r [\<lparr>description = ''Token'', name = ''token'',
                                    alternatives = None\<rparr>] s2 of
                  (u, s3) \<Rightarrow>
                    run tokenize s3
                    = (Throws TypeError,
                       s3\<lparr>stdin := [], out := [Question (Plain ''> '')]\<rparr>))))"
  by (simp add: registry_eval call_def requiring_def constructed_def run.simps iteration_def
      getCommand_eq normaliseCommand_def trim_eval runCommand_def parseCommand_def
      bag_def lookup_def resolve_def eval_nat_numeral bag_truthy_def)

subsection \<open>C4: a required argument that is already present\<close>

text \<open>
  Claim C4 as stated: a required argument whose primary name is present in the bag
  with any value, including false, zero or the empty string, never triggers a prompt
  and keeps its value. The guards of lines 148 and 152 test the value for truth, not
  for presence: a value that is false is asked for, and replaced.
\<close>

theorem C4_falsy_value_counterexample:
  "\<not> (\<forall>req args s r s'. args (name req) \<noteq> None \<longrightarrow>
          resolveArguments [req] args s = (r, s') \<longrightarrow>
          r = Returns (Resolved args) \<and> out s' = out s)"
proof
  let ?s = "fresh example_config True [Line ''abc'']"
  let ?args = "[''token'' \<mapsto> VBool False]"
  assume "\<forall>req args s r s'. args (name req) \<noteq> None \<longrightarrow>
          resolveArguments [req] args s = (r, s') \<longrightarrow>
          r = Returns (Resolved args) \<and> out s' = out s"
  then have "args (name req) \<noteq> None \<Longrightarrow> resolveArguments [req] args s = (r, s') \<Longrightarrow>
      out s' = out s" for req args s r s'
    by blast
  from this [of ?args token ?s, OF _ falsy_value_prompts] show False
    by (simp add: token_def fresh_def)
qed

text \<open>
  Claim C4, amended: a required argument whose primary name is present in the bag with
  a truthy value (a non-empty string, a non-zero number, true, or a list) never
  triggers a prompt and keeps its value. Resolution with the argument in the list is
  resolution without it (the same outcome, bag, trace, listeners and script), wherever
  the argument stands in the list; and a bag that resolves holds the value it held.
\<close>

theorem C4_truthy_value_untouched:
  assumes "truthy (args (name req))"
  shows "resolveArguments (pre @ req # post) args s = resolveArguments (pre @ post) args s
    \<and> (\<forall>args' s'. resolveArguments (pre @ req # post) args s = (Returns (Resolved args'), s')
          \<longrightarrow> args' (name req) = args (name req))"
  using assms by (auto simp: resolveArguments_skip dest: resolveArguments_truthy_kept)

theorem C4_truthy_value_untouched_witness:
  "truthy ([''token'' \<mapsto> VStr ''abc''] (name token))
   \<and> resolveArguments [token] [''token'' \<mapsto> VStr ''abc''] (fresh example_config True [])
       = (Returns (Resolved [''token'' \<mapsto> VStr ''abc'']), fresh example_config True [])
   \<and> [''token'' \<mapsto> VStr ''abc''] (name token) = Some (VStr ''abc'')"
  using C4_truthy_value_untouched
    [of "[''token'' \<mapsto> VStr ''abc'']" token "[]" "[]" "fresh example_config True []"]
  by (simp add: token_def)

subsection \<open>C5: the first match wins, and exit definitions come first\<close>

text \<open>
  Claim C5: for every registry state and every parsed verb and noun, lookup returns
  the first definition, in the order of insertion, of that verb whose noun equals the
  parsed noun (both unset being equal); and since the exit definitions are installed
  first, a user command registered later with an exit verb and no noun is never
  selected.

  First part: lookup returns \<open>a\<close> exactly when the value read at the verb is a list,
  \<open>a\<close> stands in it at some position, the noun of \<open>a\<close> is the parsed noun (as values: a
  string equal to the parsed string, or both undefined), and the noun of no definition
  at an earlier position is (\<^verbatim>\<open>on\<close> appends, so positions are the order of insertion).
  It returns no definition exactly when the verb reads undefined or no definition of
  its list has the parsed noun. Second part: after construction and any program of
  builder calls, looking up an exit verb without a noun selects a definition allocated
  at construction, which still is that verb's exit definition; no definition made by
  \<^verbatim>\<open>on\<close> (addresses from \<open>length (heap s0)\<close> on) is selected.
\<close>

theorem C5_first_match_wins:
  "(lookup s v n = Inr (Some a) \<longleftrightarrow>
      (\<exists>ds i. cds_get s v = Defs ds \<and> i < length ds \<and> ds ! i = a
         \<and> map_option VStr (noun (heap s ! a)) = n
         \<and> (\<forall>j<i. map_option VStr (noun (heap s ! (ds ! j))) \<noteq> n)))
   \<and> (lookup s v n = Inr None \<longleftrightarrow>
        cds_get s v = Undefined
        \<or> (\<exists>ds. cds_get s v = Defs ds
              \<and> (\<forall>a \<in> set ds. map_option VStr (noun (heap s ! a)) \<noteq> n)))
   \<and> (constructor cfg tty script = Inr s0 \<longrightarrow> exitCommands cfg = Some ecs \<longrightarrow>
        ec \<in> set (ecs @ [''exit'']) \<longrightarrow>
        (\<exists>x. x < length (heap s0)
           \<and> lookup (stage_calls (length (heap s0)) calls s0) ec None = Inr (Some x)
           \<and> heap (stage_calls (length (heap s0)) calls s0) ! x
               = \<lparr>verb = ec, noun = None, command = exit, requiredArguments = None\<rparr>))"
proof (intro conjI impI)
  show "lookup s v n = Inr (Some a) \<longleftrightarrow>
      (\<exists>ds i. cds_get s v = Defs ds \<and> i < length ds \<and> ds ! i = a
         \<and> map_option VStr (noun (heap s ! a)) = n
         \<and> (\<forall>j<i. map_option VStr (noun (heap s ! (ds ! j))) \<noteq> n))"
    by (rule lookup_Some_iff)
next
  show "lookup s v n = Inr None \<longleftrightarrow>
        cds_get s v = Undefined
        \<or> (\<exists>ds. cds_get s v = Defs ds
              \<and> (\<forall>a \<in> set ds. map_option VStr (noun (heap s ! a)) \<noteq> n))"
    by (auto simp: lookup_def find_None_iff noun_eq_iff split: slot.splits)
next
  assume c: "constructor cfg tty script = Inr s0" and e: "exitCommands cfg = Some ecs"
    and ec: "ec \<in> set (ecs @ [''exit''])"
  from exits_first_stage_calls [OF exits_first_constructor [OF c e]]
  have "exits_first (length (heap s0)) (set (ecs @ [''exit'']))
          (stage_calls (length (heap s0)) calls s0)" .
  from exits_first_lookup [OF this ec]
  show "\<exists>x. x < length (heap s0)
           \<and> lookup (stage_calls (length (heap s0)) calls s0) ec None = Inr (Some x)
           \<and> heap (stage_calls (length (heap s0)) calls s0) ! x
               = \<lparr>verb = ec, noun = None, command = exit, requiredArguments = None\<rparr>"
    by (simp add: exit_spec_def)
qed

theorem C5_first_match_wins_witness:
  "cds_get greet_state ''greet'' = Defs [2, 3, 4]
   \<and> noun (heap greet_state ! 2) = Some ''bob''
   \<and> noun (heap greet_state ! 3) = None
   \<and> noun (heap greet_state ! 4) = Some ''bob''
   \<and> lookup greet_state ''greet'' (Some (VStr ''bob'')) = Inr (Some 2)
   \<and> lookup greet_state ''greet'' None = Inr (Some 3)
   \<and> lookup greet_state ''greet'' (Some (VStr ''amy'')) = Inr None
   \<and> lookup greet_state ''greet'' (Some (VNum 5)) = Inr None
   \<and> lookup greet_state ''hello'' None = Inr None
   \<and> constructor example_config True [] = Inr (constructed [])
   \<and> exitCommands example_config = Some [''quit'']
   \<and> cds_get greet_state ''quit'' = Defs [0, 5]
   \<and> heap greet_state ! 5
       = \<lparr>verb = ''quit'', noun = None, command = login, requiredArguments = None\<rparr>
   \<and> lookup greet_state ''quit'' None = Inr (Some 0)
   \<and> heap greet_state ! 0
       = \<lparr>verb = ''quit'', noun = None, command = exit, requiredArguments = None\<rparr>"
proof -
  have g: "cds_get greet_state ''greet'' = Defs [2, 3, 4]"
    and q: "cds_get greet_state ''quit'' = Defs [0, 5]"
    and h: "cds_get greet_state ''hello'' = Undefined"
    by (simp_all add: greet_state_eq cds_get_def inherited_def Object_prototype_def)
  have n: "noun (heap greet_state ! 2) = Some ''bob''" "noun (heap greet_state ! 3) = None"
    "noun (heap greet_state ! 4) = Some ''bob''"
    and h5: "heap greet_state ! 5
       = \<lparr>verb = ''quit'', noun = None, command = login, requiredArguments = None\<rparr>"
    and h0: "heap greet_state ! 0
       = \<lparr>verb = ''quit'', noun = None, command = exit, requiredArguments = None\<rparr>"
    by (simp_all add: greet_state_eq eval_nat_numeral)
  note first = C5_first_match_wins [THEN conjunct1, THEN iffD2]
  note none = C5_first_match_wins [THEN conjunct2, THEN conjunct1, THEN iffD2]
  have bob: "lookup greet_state ''greet'' (Some (VStr ''bob'')) = Inr (Some 2)"
    by (rule first, rule exI [of _ "[2, 3, 4]"], rule exI [of _ 0]) (simp add: g n)
  have bare: "lookup greet_state ''greet'' None = Inr (Some 3)"
    by (rule first, rule exI [of _ "[2, 3, 4]"], rule exI [of _ 1]) (simp add: g n)
  have amy: "lookup greet_state ''greet'' (Some (VStr ''amy'')) = Inr None"
    by (rule none, rule disjI2, rule exI [of _ "[2, 3, 4]"]) (simp add: g n)
  have five: "lookup greet_state ''greet'' (Some (VNum 5)) = Inr None"
    by (rule none, rule disjI2, rule exI [of _ "[2, 3, 4]"]) (simp add: g n)
  have hello: "lookup greet_state ''hello'' None = Inr None"
    by (rule none, rule disjI1) (rule h)
  have cfg: "constructor example_config True [] = Inr (constructed [])"
    by (rule constructor_example)
  have ecs: "exitCommands example_config = Some [''quit'']" by (simp add: example_config_def)
  have m: "''quit'' \<in> set ([''quit''] @ [''exit''])" by simp
  have len: "length (heap (constructed [])) = 2" by (simp add: constructed_def)
  from C5_first_match_wins [THEN conjunct2, THEN conjunct2, rule_format, OF cfg ecs m,
      of "[On ''greet'', With 0 ''bob'', On ''greet'', On ''greet'', With 2 ''bob'',
           On ''quit'', Call 3 login]"]
  obtain x where "x < 2" "lookup greet_state ''quit'' None = Inr (Some x)"
    "heap greet_state ! x
       = \<lparr>verb = ''quit'', noun = None, command = exit, requiredArguments = None\<rparr>"
    unfolding len greet_state_def [symmetric] by blast
  moreover from this(1) have "x = 0 \<or> x = 1" by auto
  moreover have "heap greet_state ! 1
       \<noteq> \<lparr>verb = ''quit'', noun = None, command = exit, requiredArguments = None\<rparr>"
    by (simp add: greet_state_eq)
  ultimately have quit: "lookup greet_state ''quit'' None = Inr (Some 0)" by auto
  from g n bob bare amy five hello cfg ecs q h5 quit h0 show ?thesis by (intro conjI)
qed

subsection \<open>C6: the loop stops exactly when a handler fails\<close>

text \<open>
  Claim C6: in every iteration of the loop where a definition is matched and its
  arguments resolve, the handler is invoked, each of its messages is printed, and the
  loop stops if and only if the handler's result has \<^verbatim>\<open>success\<close> false; an unmatched
  command and a cancelled resolution never stop the loop.

  The registry is the plain object \<^verbatim>\<open>{}\<close>, and line 136 reads \<^verbatim>\<open>this.cds[verb]\<close> at the verb
  that the user typed. At a verb that names a member inherited from \<^verbatim>\<open>Object.prototype\<close>
  the read yields that member: the optional chaining does not stop (the value is not
  undefined), \<^verbatim>\<open>find\<close> is undefined on it, and the call throws a TypeError, so that
  \<^verbatim>\<open>runCommand\<close> and \<^verbatim>\<open>run\<close> reject. In the example shell the line \<^verbatim>\<open>constructor\<close>, which
  matches no definition, ends the loop: nothing is printed after the command prompt, no
  handler was invoked, and the line typed next is never read. The line \<^verbatim>\<open>nope\<close>, which
  matches no definition either, is answered by \<^verbatim>\<open>wut?\<close> and the loop goes on to read the
  next line. (Lemma \<open>iteration_outcomes\<close> is the law of the claim where lookup does not
  throw.)
\<close>

theorem C6_inherited_verb_stops_loop:
  "cds_get (example_state ks) ''constructor'' = Other True
   \<and> lookup (example_state ks) ''constructor'' None = Inl TypeError
   \<and> run tokenize (example_state [Line ''constructor'', Line ''exit''])
       = (Throws TypeError,
          (example_state [Line ''exit''])\<lparr>out := [Question (Plain ''> '')]\<rparr>)
   \<and> run tokenize (example_state [Line ''nope'', Line ''exit''])
       = (Returns True,
          (example_state [])\<lparr>out := [Question (Plain ''> ''), ConsoleLog (Cyan ''  wut?''),
                                       Question (Plain ''> ''), Invoke 1 [''_'' \<mapsto> VArr []],
                                       ConsoleLog (Cyan ''  byeee'')]\<rparr>)"
  by (simp add: run.simps iteration_def getCommand_eq normaliseCommand_def trim_eval
      runCommand_def parseCommand_def bag_def lookup_def cds_get_def inherited_def
      Object_prototype_def resolve_def example_state_eq console_log_def invoke_eq exit_def
      eval_nat_numeral)

subsection \<open>C7: cancellation\<close>

text \<open>
  Claim C7: when a cancellation arrives during an argument prompt of a dispatch, the
  whole resolution is aborted: the partially filled bag is discarded, the input is
  reset, exactly a \<^verbatim>\<open>Cancelled\<close> notice is emitted, the handler is never invoked and the
  loop remains running.

  Take a command line whose definition is matched in \<open>s\<close> and whose resolution, with
  the keys typed so far, waits in \<open>t\<close> for a key: it has written at least one query,
  the one it waits at (the first argument prompt or a later one), and has consumed the
  script, which held answers only. When the next key is the escape key, whatever is
  typed after it (\<open>ks\<close>), \<^verbatim>\<open>runCommand\<close> returns true (running) in the state \<open>s'\<close> that \<open>t\<close>
  becomes by \<^verbatim>\<open>initInput\<close> and the log \<^verbatim>\<open>Cancelled\<close>: the outcome carries no bag; what the
  dispatch added to the trace is the queries followed by the single log \<^verbatim>\<open>Cancelled\<close>; no
  handler was invoked, and none of the later arguments was asked for; the keys after the
  escape key are left for the next command; the interface held was closed and a new
  one created; the registry is unchanged. (The keypress listeners are the subject of
  C8.)
\<close>

theorem C7_cancellation_aborts_dispatch:
  assumes "parseCommand minimist cmd = (v, n, args)"
    and "lookup s v n = Inr (Some cd)"
    and "resolve (heap s ! cd) args s = (Awaits, t)"
  shows "\<exists>s'. runCommand minimist cmd (typing (Escape # ks) s) = (Returns True, s')
       \<and> s' = console_log (Plain ''Cancelled'') (initInput (t\<lparr>stdin := ks\<rparr>))
       \<and> (\<exists>qs. qs \<noteq> [] \<and> out t = out s @ map (\<lambda>q. Question (Yellow q)) qs)
       \<and> out s' = out t @ [ConsoleLog (Plain ''Cancelled'')]
       \<and> invocations (out s') = invocations (out s)
       \<and> (\<exists>answers. stdin s = map Line answers) \<and> stdin t = [] \<and> stdin s' = ks
       \<and> input s' = Some (interfaces s) \<and> interfaces s' = Suc (interfaces s)
       \<and> closed s' = closed s @ (case input s of None \<Rightarrow> [] | Some i \<Rightarrow> [i])
       \<and> cds s' = cds s \<and> cds_proto s' = cds_proto s \<and> heap s' = heap s"
proof -
  let ?u = "typing (Escape # ks) s"
  let ?s' = "console_log (Plain ''Cancelled'') (initInput (t\<lparr>stdin := ks\<rparr>))"
  from assms(2) have l: "lookup ?u v n = Inr (Some cd)"
    by (simp add: lookup_frame [of ?u s])
  from resolve_escape_arrives [OF assms(3), of ks]
  have "resolve (heap ?u ! cd) args ?u = (Returns Cancelled, ?s')" by simp
  from runCommand_cancelled [OF assms(1) l this]
  have run: "runCommand minimist cmd ?u = (Returns True, ?s')" .
  from resolve_prompted [OF assms(3)] have p: "prompted False s t" by simp
  from awaits_at_prompt [OF assms(3)] obtain qs where
    qs: "qs \<noteq> []" "out t = out s @ map (\<lambda>q. Question (Yellow q)) qs" by blast
  from awaits_exhausted [OF assms(3)] have e: "stdin t = []" .
  with p have a: "\<exists>answers. stdin s = map Line answers" by (auto simp: prompted_def)
  have o: "out ?s' = out t @ [ConsoleLog (Plain ''Cancelled'')]"
    by (simp add: console_log_def initInput_eq)
  with qs have i: "invocations (out ?s') = invocations (out s)"
    by (simp add: invocations_append invocations_questions)
  have k: "stdin ?s' = ks" by (simp add: console_log_def initInput_eq)
  from p have f: "input ?s' = Some (interfaces s)" "interfaces ?s' = Suc (interfaces s)"
    "closed ?s' = closed s @ (case input s of None \<Rightarrow> [] | Some i \<Rightarrow> [i])"
    "cds ?s' = cds s" "cds_proto ?s' = cds_proto s" "heap ?s' = heap s"
    by (simp_all add: prompted_def console_log_def initInput_eq)
  from run qs o i a e k f show ?thesis by blast
qed

theorem C7_cancellation_aborts_dispatch_witness:
  "parseCommand tokenize ''pay'' = (''pay'', None, [''_'' \<mapsto> VArr []])
   \<and> lookup (pay_state []) ''pay'' None = Inr (Some 3)
   \<and> requiredArguments (heap (pay_state []) ! 3) = Some [token, pin]
   \<and> resolve (heap (pay_state []) ! 3) [''_'' \<mapsto> VArr []] (pay_state [])
       = (Awaits, (pay_state [])\<lparr>keypress := 1, rawMode := True,
                     out := [Question (Yellow ''  $Token: '')]\<rparr>)
   \<and> runCommand tokenize ''pay'' (pay_state [Escape, Line ''exit''])
       = (Returns True,
          (pay_state [Line ''exit''])\<lparr>input := Some 1, interfaces := 2, closed := [0],
             keypress := 1, rawMode := True,
             out := [Question (Yellow ''  $Token: ''), ConsoleLog (Plain ''Cancelled'')]\<rparr>)
   \<and> lookup (pay_state [Line ''abc'']) ''pay'' None = Inr (Some 3)
   \<and> resolve (heap (pay_state [Line ''abc'']) ! 3) [''_'' \<mapsto> VArr []]
         (pay_state [Line ''abc''])
       = (Awaits, (pay_state [])\<lparr>keypress := 2, rawMode := True,
                     out := [Question (Yellow ''  $Token: ''),
                             Question (Yellow ''  $Pin: '')]\<rparr>)
   \<and> runCommand tokenize ''pay'' (pay_state [Line ''abc'', Escape, Line ''exit''])
       = (Returns True,
          (pay_state [Line ''exit''])\<lparr>input := Some 1, interfaces := 2, closed := [0],
             keypress := 2, rawMode := True,
             out := [Question (Yellow ''  $Token: ''), Question (Yellow ''  $Pin: ''),
                     ConsoleLog (Plain ''Cancelled'')]\<rparr>)"
proof -
  have r: "requiredArguments (heap (pay_state []) ! 3) = Some [token, pin]"
    by (simp add: pay_state_eq eval_nat_numeral)
  from C7_cancellation_aborts_dispatch [OF parse_pay lookup_pay pay_waits_for_token,
      of "[Line ''exit'']"]
  have "runCommand tokenize ''pay'' (typing [Escape, Line ''exit''] (pay_state []))
       = (Returns True,
          console_log (Plain ''Cancelled'')
            (initInput ((pay_state [])\<lparr>keypress := 1, rawMode := True,
               out := [Question (Yellow ''  $Token: '')], stdin := [Line ''exit'']\<rparr>)))"
    by auto
  then have first: "runCommand tokenize ''pay'' (pay_state [Escape, Line ''exit''])
       = (Returns True,
          (pay_state [Line ''exit''])\<lparr>input := Some 1, interfaces := 2, closed := [0],
             keypress := 1, rawMode := True,
             out := [Question (Yellow ''  $Token: ''), ConsoleLog (Plain ''Cancelled'')]\<rparr>)"
    by (simp add: typing_def pay_state_eq console_log_def initInput_eq)
  from C7_cancellation_aborts_dispatch [OF parse_pay lookup_pay pay_waits_for_pin,
      of "[Line ''exit'']"]
  have "runCommand tokenize ''pay'' (typing [Escape, Line ''exit''] (pay_state [Line ''abc'']))
       = (Returns True,
          console_log (Plain ''Cancelled'')
            (initInput ((pay_state [])\<lparr>keypress := 2, rawMode := True,
               out := [Question (Yellow ''  $Token: ''), Question (Yellow ''  $Pin: '')],
               stdin := [Line ''exit'']\<rparr>)))"
    by auto
  then have second: "runCommand tokenize ''pay'' (pay_state [Line ''abc'', Escape, Line ''exit''])
       = (Returns True,
          (pay_state [Line ''exit''])\<lparr>input := Some 1, interfaces := 2, closed := [0],
             keypress := 2, rawMode := True,
             out := [Question (Yellow ''  $Token: ''), Question (Yellow ''  $Pin: ''),
                     ConsoleLog (Plain ''Cancelled'')]\<rparr>)"
    by (simp add: typing_def pay_state_eq console_log_def initInput_eq)
  from parse_pay lookup_pay [of "[]"] r pay_waits_for_token first
    lookup_pay [of "[Line ''abc'']"] pay_waits_for_pin second
  show ?thesis by (intro conjI)
qed

subsection \<open>C8: keypress listeners\<close>

text \<open>
  Claim C8 as stated: after a cancellation, and after every completed prompt, no stale
  keypress listener remains attached, so that the number of attached listeners never
  accumulates across prompts or commands. \<^verbatim>\<open>getArgument\<close> attaches a listener with
  \<^verbatim>\<open>process.stdin.on\<close> at every prompt and nothing in the program removes one: after one
  answered prompt the program has one more listener than before.
\<close>

theorem C8_listeners_accumulate_counterexample:
  "\<not> (\<forall>minimist cmd s r s'. runCommand minimist cmd s = (r, s') \<longrightarrow> keypress s' \<le> keypress s)"
proof
  assume "\<forall>minimist cmd s r s'. runCommand minimist cmd s = (r, s') \<longrightarrow> keypress s' \<le> keypress s"
  then have "runCommand minimist cmd s = (r, s') \<Longrightarrow> keypress s' \<le> keypress s"
    for minimist cmd s r s'
    by blast
  from this [OF answered_login] show False by (simp add: example_state_eq)
qed

text \<open>
  Claim C8, amended: every argument prompt attaches one keypress listener to the input
  channel and nothing removes it, neither the completion of the prompt nor a
  cancellation (\<^verbatim>\<open>initInput\<close> replaces the readline interface and leaves the listeners):
  over a command, and over a whole run of the loop, the number of attached listeners
  grows by exactly the number of argument prompts issued.
\<close>

theorem C8_one_listener_per_prompt:
  "keypress (initInput s) = keypress s
   \<and> (runCommand minimist cmd s = (r, s') \<longrightarrow>
        keypress s' + prompts (out s) = keypress s + prompts (out s'))
   \<and> (run minimist s = (r, s') \<longrightarrow>
        keypress s' + prompts (out s) = keypress s + prompts (out s'))"
  by (simp add: initInput_eq runCommand_listeners run_listeners)

theorem C8_one_listener_per_prompt_witness:
  "runCommand tokenize ''login'' (example_state [Line ''abc''])
   = (Returns True,
      (example_state [])\<lparr>keypress := 1, rawMode := True,
         out := [Question (Yellow ''  $Token: ''),
                 Invoke 2 [''_'' \<mapsto> VArr [], ''token'' \<mapsto> VStr ''abc''],
                 ConsoleLog (Cyan ''  token abc'')]\<rparr>)
   \<and> keypress (example_state [Line ''abc'']) = 0
   \<and> prompts (out (example_state [Line ''abc''])) = 0
   \<and> keypress ((example_state [])\<lparr>keypress := 1, rawMode := True,
         out := [Question (Yellow ''  $Token: ''),
                 Invoke 2 [''_'' \<mapsto> VArr [], ''token'' \<mapsto> VStr ''abc''],
                 ConsoleLog (Cyan ''  token abc'')]\<rparr>)
       = prompts [Question (Yellow ''  $Token: ''),
                 Invoke 2 [''_'' \<mapsto> VArr [], ''token'' \<mapsto> VStr ''abc''],
                 ConsoleLog (Cyan ''  token abc'')]
   \<and> (\<exists>s'. run tokenize
              (example_state [Line ''login'', Line ''abc'', Line ''login'', Escape, Line ''exit''])
            = (Returns True, s')
          \<and> keypress s' = 2 \<and> prompts (out s') = 2 \<and> closed s' = [0] \<and> input s' = Some 1)"
  using C8_one_listener_per_prompt [where minimist = tokenize and cmd = "''login''"
      and s = "example_state [Line ''abc'']"] answered_login
    C8_one_listener_per_prompt [where minimist = tokenize
      and s = "example_state [Line ''login'', Line ''abc'', Line ''login'', Escape, Line ''exit'']"]
    session
  by (simp add: example_state_eq)

subsection \<open>C9: the builder\<close>

text \<open>
  Claim C9: for the builder sequences \<^verbatim>\<open>on, with, call, requiring, run\<close> and
  \<^verbatim>\<open>on, call, run\<close> the registry holds exactly one definition per call of \<^verbatim>\<open>on\<close>, whose
  verb, noun, handler and required arguments are the values set by the stages, which
  mutate one shared record.

  Line 177 tests \<^verbatim>\<open>!this.cds[verb]\<close> on the plain object \<^verbatim>\<open>{}\<close>. At a verb that names a
  member inherited from \<^verbatim>\<open>Object.prototype\<close> the value read is that member, which is
  truthy: no list is assigned, \<^verbatim>\<open>push\<close> is undefined on the member, and line 182 throws
  a TypeError. \<^verbatim>\<open>on("constructor")\<close> returns no stage and the registry holds no definition
  for this call of \<^verbatim>\<open>on\<close>: the verb still reads as the inherited member, in the
  constructed shell and in the example shell alike. (Lemma \<open>builder_chains\<close> is the law
  of the claim where \<^verbatim>\<open>on\<close> returns.)
\<close>

theorem C9_inherited_verb_not_registered:
  "cds_get (constructed ks) ''constructor'' = Other True
   \<and> on ''constructor'' (constructed ks) = Inl TypeError
   \<and> on ''toString'' (example_state ks) = Inl TypeError
   \<and> stage_calls 2 [On ''constructor''] (constructed ks) = constructed ks"
  by (simp add: registry_eval constructed_def example_state_eq)

subsection \<open>C10: a definition without a handler\<close>




end
